theory Spec2Isabelle
  imports Complex_Main
begin

section \<open>Data model\<close>

text \<open>
  A \<open>QPointF\<close> is a pair of doubles. Coordinates are modelled as exact reals: rounding
  of the floating-point operations is not part of the model. On the points the widget
  collects (integer pixel positions from \<open>event->pos()\<close>) the sums and products below
  are whole numbers of small size, on which double arithmetic is exact: a double holds
  every whole number up to \<open>2^53\<close> in magnitude. Theorems whose truth depends on this
  exactness bound the coordinates (see \<open>pixel\<close> below).
\<close>

type_synonym point = "real \<times> real"

abbreviation px :: "point \<Rightarrow> real" where "px \<equiv> fst"
abbreviation py :: "point \<Rightarrow> real" where "py \<equiv> snd"

text \<open>\<open>QPointF::operator-\<close>, used on direction vectors.\<close>

definition pminus :: "point \<Rightarrow> point \<Rightarrow> point" where
  "pminus a b = (px a - px b, py a - py b)"

text \<open>
  A conversion \<open>(long long) d\<close> of a double truncates towards zero. A \<open>long long\<close>
  has 64 bits. When the truncated value does not fit, C++ leaves the conversion
  undefined; the model then takes the smallest \<open>long long\<close>, which is what the
  conversion delivers on x86-64.
\<close>

definition LLONG_MIN :: int where
  "LLONG_MIN = - (2 ^ 63)"

definition LLONG_MAX :: int where
  "LLONG_MAX = 2 ^ 63 - 1"

definition to_long_long :: "real \<Rightarrow> int" where
  "to_long_long d =
     (let k = (if 0 \<le> d then \<lfloor>d\<rfloor> else \<lceil>d\<rceil>)
      in if LLONG_MIN \<le> k \<and> k \<le> LLONG_MAX then k else LLONG_MIN)"

datatype Mode = IDLE | ADD_POINTS_CONVEX_HULL | DRAW_POLYGON | DRAW_POLYGON_A | DRAW_POLYGON_B

datatype BooleanOpType = Intersection | Union

record Triangle =
  p1 :: point
  p2 :: point
  p3 :: point

record DrawingWidget =
  polygonA :: "point list"
  polygonB :: "point list"
  currentMode :: Mode
  taskToPerform :: string
  convexHullAlgorithm :: string
  displayMode :: string
  polygonsReadyForOperation :: bool
  points :: "point list"
  convexHull :: "point list"
  polygonVertices :: "point list"
  triangles :: "Triangle list"
  weilerResultPolygons :: "point list list"
  polygonArea :: real
  triangleCount :: int

section \<open>Geometric predicates\<close>

definition crossProduct :: "point \<Rightarrow> point \<Rightarrow> point \<Rightarrow> real" where
  "crossProduct a b c = (px b - px a) * (py c - py a) - (py b - py a) * (px c - px a)"

text \<open>
  The loop shared by \<open>computeAreaSign\<close>, \<open>calculatePolygonArea\<close> and the winding test
  of \<open>calculateTriangulation\<close>: for \<open>i = 0 .. size-1\<close> it adds
  \<open>p1.x * p2.y - p2.x * p1.y\<close> with \<open>p1 = pts[i]\<close>, \<open>p2 = pts[(i + 1) % size]\<close>.
\<close>

definition shoelace_step :: "point list \<Rightarrow> nat \<Rightarrow> real \<Rightarrow> real" where
  "shoelace_step pts i acc =
     acc + (px (pts ! i) * py (pts ! ((i + 1) mod length pts))
            - px (pts ! ((i + 1) mod length pts)) * py (pts ! i))"

definition computeAreaSign :: "point list \<Rightarrow> real" where
  "computeAreaSign pts = fold (shoelace_step pts) [0..<length pts] 0"

definition calculatePolygonArea :: "DrawingWidget \<Rightarrow> DrawingWidget" where
  "calculatePolygonArea w =
     w\<lparr>polygonArea := \<bar>fold (shoelace_step (polygonVertices w))
                           [0..<length (polygonVertices w)] 0\<bar> / 2,
       currentMode := IDLE\<rparr>"

text \<open>
  \<open>getLineSegmentIntersection\<close>: the result is the optional point together with the
  value written to \<open>out_alpha\<close>. The division by \<open>det\<close> is only reached when
  \<open>det\<close> is not zero.
\<close>

definition EPSILON :: real where
  "EPSILON = 1 / 10 ^ 9"

definition seg_det :: "point \<Rightarrow> point \<Rightarrow> point \<Rightarrow> point \<Rightarrow> real" where
  "seg_det a b c d = (px b - px a) * (py d - py c) - (py b - py a) * (px d - px c)"

definition seg_t :: "point \<Rightarrow> point \<Rightarrow> point \<Rightarrow> point \<Rightarrow> real" where
  "seg_t a b c d =
     ((px c - px a) * (py d - py c) - (py c - py a) * (px d - px c)) / seg_det a b c d"

definition seg_u :: "point \<Rightarrow> point \<Rightarrow> point \<Rightarrow> point \<Rightarrow> real" where
  "seg_u a b c d =
     - ((px b - px a) * (py c - py a) - (py b - py a) * (px c - px a)) / seg_det a b c d"

definition getLineSegmentIntersection ::
  "point \<Rightarrow> point \<Rightarrow> point \<Rightarrow> point \<Rightarrow> (point \<times> real) option" where
  "getLineSegmentIntersection a b c d =
     (if \<bar>seg_det a b c d\<bar> < EPSILON then None
      else let t = seg_t a b c d; u = seg_u a b c d in
        if t > EPSILON \<and> t < 1 - EPSILON \<and> u > EPSILON \<and> u < 1 - EPSILON
        then Some ((px a + t * (px b - px a), py a + t * (py b - py a)), t)
        else None)"

text \<open>
  \<open>Triangle::contains\<close>: the three sub-triangle areas (as absolute cross products)
  against the whole, with tolerance \<open>1e-10\<close>.
\<close>

definition contains :: "Triangle \<Rightarrow> point \<Rightarrow> bool" where
  "contains t pt =
     (let totalArea = \<bar>(px (p2 t) - px (p1 t)) * (py (p3 t) - py (p1 t))
                        - (py (p2 t) - py (p1 t)) * (px (p3 t) - px (p1 t))\<bar>;
          area1 = \<bar>(px (p1 t) - px pt) * (py (p2 t) - py pt)
                    - (py (p1 t) - py pt) * (px (p2 t) - px pt)\<bar>;
          area2 = \<bar>(px (p2 t) - px pt) * (py (p3 t) - py pt)
                    - (py (p2 t) - py pt) * (px (p3 t) - px pt)\<bar>;
          area3 = \<bar>(px (p3 t) - px pt) * (py (p1 t) - py pt)
                    - (py (p3 t) - py pt) * (px (p1 t) - px pt)\<bar>
      in \<bar>area1 + area2 + area3 - totalArea\<bar> < 1 / 10 ^ 10)"

definition onSegment :: "point \<Rightarrow> point \<Rightarrow> point \<Rightarrow> bool" where
  "onSegment a b c =
     (if px c < min (px a) (px b) \<or> px c > max (px a) (px b) \<or>
         py c < min (py a) (py b) \<or> py c > max (py a) (py b)
      then False
      else \<bar>crossProduct a b c\<bar> < 1 / 10 ^ 10)"

text \<open>
  The \<open>cross\<close> lambda of \<open>segmentsIntersect\<close>: each difference \<open>b - a\<close> is cast to
  \<open>long long\<close> before it is multiplied, and the double result is converted to
  \<open>long long\<close> again when it is stored in \<open>o1 .. o4\<close>. The products are those of
  the exact reals; the source computes them in double, which is the same as long as they
  stay below \<open>2^53\<close> in magnitude.
\<close>

definition cross_ll :: "point \<Rightarrow> point \<Rightarrow> point \<Rightarrow> int" where
  "cross_ll a b c =
     to_long_long (of_int (to_long_long (px b - px a)) * (py c - py a)
                   - of_int (to_long_long (py b - py a)) * (px c - px a))"

text \<open>
  Modelled from the spec: \<open>QPointF::operator==\<close> is Qt library code that is not part of
  the repository; the spec says point equality is exact coordinate match, which is
  equality of pairs here.
\<close>

definition segmentsIntersect :: "point \<Rightarrow> point \<Rightarrow> point \<Rightarrow> point \<Rightarrow> bool" where
  "segmentsIntersect s1 s2 q1 q2 =
     (let o1 = cross_ll s1 s2 q1; o2 = cross_ll s1 s2 q2;
          o3 = cross_ll q1 q2 s1; o4 = cross_ll q1 q2 s2
      in if ((o1 > 0 \<and> o2 < 0) \<or> (o1 < 0 \<and> o2 > 0)) \<and>
            ((o3 > 0 \<and> o4 < 0) \<or> (o3 < 0 \<and> o4 > 0)) then True
         else if o1 = 0 \<and> onSegment s1 s2 q1 \<and> \<not> (q1 = s1 \<or> q1 = s2) then True
         else if o2 = 0 \<and> onSegment s1 s2 q2 \<and> \<not> (q2 = s1 \<or> q2 = s2) then True
         else if o3 = 0 \<and> onSegment q1 q2 s1 \<and> \<not> (s1 = q1 \<or> s1 = q2) then True
         else if o4 = 0 \<and> onSegment q1 q2 s2 \<and> \<not> (s2 = q1 \<or> s2 = q2) then True
         else False)"

section \<open>Polygon validator\<close>

text \<open>
  The two nested \<open>for\<close> loops of \<open>isSimplePolygon\<close>, as recursion over the index ranges.
  Both return \<open>False\<close> as soon as the source executes \<open>return false\<close>.
\<close>

fun isSimple_inner :: "point list \<Rightarrow> nat \<Rightarrow> nat list \<Rightarrow> bool" where
  "isSimple_inner poly i [] = True"
| "isSimple_inner poly i (j # js) =
     (let n = length poly; q1 = poly ! j; q2 = poly ! ((j + 1) mod n) in
      if q1 = q2 then False
      else if i = j \<or> j = (i + 1) mod n \<or> i = (j + 1) mod n then isSimple_inner poly i js
      else if segmentsIntersect (poly ! i) (poly ! ((i + 1) mod n)) q1 q2 then False
      else isSimple_inner poly i js)"

fun isSimple_outer :: "point list \<Rightarrow> nat list \<Rightarrow> bool" where
  "isSimple_outer poly [] = True"
| "isSimple_outer poly (i # is) =
     (if poly ! i = poly ! ((i + 1) mod length poly) then False
      else if isSimple_inner poly i [0..<length poly] then isSimple_outer poly is
      else False)"

definition isSimplePolygon :: "point list \<Rightarrow> bool" where
  "isSimplePolygon poly =
     (if length poly < 3 then True
      else if length poly = 3 then True
      else isSimple_outer poly [0..<length poly])"

section \<open>Ear clipping\<close>

definition mkTriangle :: "point \<Rightarrow> point \<Rightarrow> point \<Rightarrow> Triangle" where
  "mkTriangle a b c = \<lparr>p1 = a, p2 = b, p3 = c\<rparr>"

definition ear_at :: "point list \<Rightarrow> nat \<Rightarrow> Triangle" where
  "ear_at remaining i =
     mkTriangle (remaining ! i) (remaining ! ((i + 1) mod length remaining))
                (remaining ! ((i + 2) mod length remaining))"

text \<open>The inner \<open>for j\<close> loop: \<open>isValidEar\<close> stays true unless some other vertex is
  contained in the ear.\<close>

definition isValidEar :: "point list \<Rightarrow> nat \<Rightarrow> bool" where
  "isValidEar remaining i =
     list_all (\<lambda>j. \<not> (j \<noteq> i \<and> j \<noteq> (i + 1) mod length remaining
                        \<and> j \<noteq> (i + 2) mod length remaining
                        \<and> contains (ear_at remaining i) (remaining ! j)))
              [0..<length remaining]"

text \<open>
  The \<open>for i\<close> scan of one pass of the \<open>while\<close> loop: the first index whose corner is
  convex (\<open>long long cross = crossProduct(p1, p2, p3); cross > 0\<close>) and a valid ear.
\<close>

fun scan_ears :: "point list \<Rightarrow> nat list \<Rightarrow> nat option" where
  "scan_ears remaining [] = None"
| "scan_ears remaining (i # is) =
     (if to_long_long (crossProduct (remaining ! i)
                          (remaining ! ((i + 1) mod length remaining))
                          (remaining ! ((i + 2) mod length remaining))) > 0
         \<and> isValidEar remaining i
      then Some i else scan_ears remaining is)"

definition remove_at :: "nat \<Rightarrow> 'a list \<Rightarrow> 'a list" where
  "remove_at k xs = take k xs @ drop (Suc k) xs"

text \<open>
  The \<open>while (remaining.size() > 3 && attempts < maxAttempts)\<close> loop. The only
  assignment to \<open>attempts\<close> in its body is \<open>attempts = 0\<close> after an ear was cut; a
  pass that finds no ear leaves \<open>remaining\<close>, \<open>triangles\<close> and \<open>attempts\<close> as they
  were. The loop need not end, so its result is optional: \<open>None\<close> is a run that never
  leaves the loop.
\<close>

partial_function (option) ear_loop ::
  "nat \<Rightarrow> point list \<Rightarrow> Triangle list \<Rightarrow> nat \<Rightarrow> (point list \<times> Triangle list \<times> nat) option" where
  "ear_loop maxAttempts remaining tris attempts =
     (if length remaining > 3 \<and> attempts < maxAttempts then
        (case scan_ears remaining [0..<length remaining] of
           Some i \<Rightarrow>
             ear_loop maxAttempts
               (remove_at ((i + 1) mod length remaining) remaining)
               (tris @ [ear_at remaining i]) 0
         | None \<Rightarrow> ear_loop maxAttempts remaining tris attempts)
      else Some (remaining, tris, attempts))"

declare ear_loop.simps [code]

text \<open>
  The preparation of the working list: drop a duplicated closing vertex, compute the
  shoelace sum, reverse when it is negative.
\<close>

definition drop_closing :: "point list \<Rightarrow> point list" where
  "drop_closing pv = (if pv \<noteq> [] \<and> hd pv = last pv then butlast pv else pv)"

definition normalise_winding :: "point list \<Rightarrow> point list" where
  "normalise_winding remaining =
     (let areaSign = fold (shoelace_step remaining) [0..<length remaining] 0
      in if areaSign < 0 then rev remaining else remaining)"

text \<open>
  The return paths of \<open>calculateTriangulation\<close>; three of them show a warning box.
\<close>

datatype tri_exit =
    Warn_too_few_vertices
  | Warn_not_simple
  | Final_triangle
  | Warn_cannot_continue
  | No_result

definition calculateTriangulation :: "DrawingWidget \<Rightarrow> (tri_exit \<times> DrawingWidget) option" where
  "calculateTriangulation w =
     (if length (polygonVertices w) < 3 then Some (Warn_too_few_vertices, w)
      else if \<not> isSimplePolygon (polygonVertices w) then Some (Warn_not_simple, w)
      else
        let remaining = normalise_winding (drop_closing (polygonVertices w));
            n = length remaining;
            maxAttempts = n * 2
        in case ear_loop maxAttempts remaining [] 0 of
             None \<Rightarrow> None
           | Some (remaining', tris, attempts) \<Rightarrow>
               if length remaining' = 3 then
                 Some (Final_triangle,
                       w\<lparr>triangles := tris @ [mkTriangle (remaining' ! 0) (remaining' ! 1) (remaining' ! 2)],
                         triangleCount := int (length tris + 1),
                         currentMode := IDLE\<rparr>)
               else if attempts \<ge> maxAttempts then
                 Some (Warn_cannot_continue, w\<lparr>triangles := []\<rparr>)
               else Some (No_result, w\<lparr>triangles := tris\<rparr>))"

section \<open>Point in polygon\<close>

text \<open>
  \<open>isPointInsidePolygon\<close>: the loop \<open>for (i = 0, j = n - 1; i < n; j = i++)\<close> toggles
  \<open>inside\<close> for every edge that the horizontal ray to the right of the point crosses.
\<close>

definition isPointInside_step :: "point \<Rightarrow> point list \<Rightarrow> nat \<Rightarrow> bool \<Rightarrow> bool" where
  "isPointInside_step pt polygon i inside =
     (let n = length polygon;
          j = (if i = 0 then n - 1 else i - 1);
          p_i = polygon ! i; p_j = polygon ! j;
          y_intersect = ((py p_i > py pt) \<noteq> (py p_j > py pt))
      in if y_intersect then
           (let x_intersect = (px p_j - px p_i) * (py pt - py p_i) / (py p_j - py p_i) + px p_i
            in if px pt < x_intersect then \<not> inside else inside)
         else inside)"

definition isPointInsidePolygon :: "point \<Rightarrow> point list \<Rightarrow> bool" where
  "isPointInsidePolygon pt polygon =
     (if length polygon < 3 then False
      else fold (isPointInside_step pt polygon) [0..<length polygon] False)"

section \<open>Weiler-Atherton boolean operation\<close>

text \<open>
  A \<open>std::list<VertexNode>\<close> is modelled as a store of nodes, addressed by the position
  at which a node was created, and the sequence of these addresses in list order. An
  iterator is the address of its node, so it stays valid when nodes are inserted, as in
  the source; the iterator \<open>end()\<close> is \<open>None\<close>. The \<open>neighbor\<close> of an intersection node
  is the address of its twin in the other list; it is only read on intersection nodes.
\<close>

record VertexNode =
  point :: point
  is_intersection :: bool
  neighbor :: nat
  is_entering :: bool
  processed :: bool
  alpha :: real

record vlist =
  nodes :: "VertexNode list"
  order :: "nat list"

definition plain_node :: "point \<Rightarrow> VertexNode" where
  "plain_node p = \<lparr>point = p, is_intersection = False, neighbor = 0, is_entering = False,
                   processed = False, alpha = 0\<rparr>"

definition list_of_polygon :: "point list \<Rightarrow> vlist" where
  "list_of_polygon poly = \<lparr>nodes = map plain_node poly, order = [0..<length poly]\<rparr>"

definition begin_it :: "vlist \<Rightarrow> nat option" where
  "begin_it l = (case order l of [] \<Rightarrow> None | x # _ \<Rightarrow> Some x)"

definition next_it :: "vlist \<Rightarrow> nat \<Rightarrow> nat option" where
  "next_it l it = (case dropWhile (\<lambda>x. x \<noteq> it) (order l) of
                     _ # y # _ \<Rightarrow> Some y | _ \<Rightarrow> None)"

definition next_cyclic :: "vlist \<Rightarrow> nat \<Rightarrow> nat" where
  "next_cyclic l it =
     (case next_it l it of Some y \<Rightarrow> y
      | None \<Rightarrow> (case order l of [] \<Rightarrow> it | x # _ \<Rightarrow> x))"

definition insert_before :: "vlist \<Rightarrow> nat \<Rightarrow> VertexNode \<Rightarrow> vlist" where
  "insert_before l it node =
     l\<lparr>nodes := nodes l @ [node],
       order := takeWhile (\<lambda>x. x \<noteq> it) (order l) @ length (nodes l) # dropWhile (\<lambda>x. x \<noteq> it) (order l)\<rparr>"

definition node_at :: "vlist \<Rightarrow> nat \<Rightarrow> VertexNode" where
  "node_at l it = nodes l ! it"

definition set_processed :: "vlist \<Rightarrow> nat \<Rightarrow> vlist" where
  "set_processed l it = l\<lparr>nodes := (nodes l)[it := (nodes l ! it)\<lparr>processed := True\<rparr>]\<rparr>"

text \<open>
  The two nested loops that insert the intersection nodes. \<open>next_itA\<close> is fixed when
  the outer iteration starts; \<open>next_itB\<close> is recomputed in every inner iteration; each
  new node is inserted before the respective next iterator, and \<open>++itB\<close>, \<open>++itA\<close>
  then step onto the inserted nodes. That the loops end is not evident from the code, so
  their results are optional.
\<close>

partial_function (option) find_intersections_inner ::
  "vlist \<Rightarrow> vlist \<Rightarrow> nat \<Rightarrow> nat \<Rightarrow> nat option \<Rightarrow> (vlist \<times> vlist) option" where
  "find_intersections_inner listA listB itA next_itA itB =
     (case itB of
        None \<Rightarrow> Some (listA, listB)
      | Some b \<Rightarrow>
          let next_itB = next_cyclic listB b in
          (case getLineSegmentIntersection (point (node_at listA itA)) (point (node_at listA next_itA))
                   (point (node_at listB b)) (point (node_at listB next_itB)) of
             None \<Rightarrow> find_intersections_inner listA listB itA next_itA (next_it listB b)
           | Some (intersect_pt, out_alpha) \<Rightarrow>
               let cross = crossProduct (0, 0)
                             (pminus (point (node_at listA next_itA)) (point (node_at listA itA)))
                             (pminus (point (node_at listB next_itB)) (point (node_at listB b)));
                   nodeA = length (nodes listA);
                   nodeB = length (nodes listB);
                   listA' = insert_before listA next_itA
                              \<lparr>point = intersect_pt, is_intersection = True, neighbor = nodeB,
                               is_entering = (cross > 0), processed = False, alpha = out_alpha\<rparr>;
                   listB' = insert_before listB next_itB
                              \<lparr>point = intersect_pt, is_intersection = True, neighbor = nodeA,
                               is_entering = (cross < 0), processed = False, alpha = 0\<rparr>
               in find_intersections_inner listA' listB' itA next_itA (next_it listB' b)))"

partial_function (option) find_intersections ::
  "vlist \<Rightarrow> vlist \<Rightarrow> nat option \<Rightarrow> (vlist \<times> vlist) option" where
  "find_intersections listA listB itA =
     (case itA of
        None \<Rightarrow> Some (listA, listB)
      | Some a \<Rightarrow>
          (case find_intersections_inner listA listB a (next_cyclic listA a) (begin_it listB) of
             None \<Rightarrow> None
           | Some (listA', listB') \<Rightarrow> find_intersections listA' listB' (next_it listA' a)))"

declare find_intersections_inner.simps [code]
declare find_intersections.simps [code]

text \<open>
  The \<open>do ... while\<close> walk that stitches one contour. \<open>loop_guard\<close> lets the body run
  at most \<open>max_loops\<close> times: the third argument counts the runs that are left.
\<close>

record walk_state =
  wlistA :: vlist
  wlistB :: vlist
  on_A :: bool
  current_iter :: nat
  current_result :: "point list"

definition walk_body :: "bool \<Rightarrow> walk_state \<Rightarrow> walk_state" where
  "walk_body is_union s =
     (let cur = current_iter s;
          s1 = (if on_A s then s\<lparr>wlistA := set_processed (wlistA s) cur\<rparr>
                else s\<lparr>wlistB := set_processed (wlistB s) cur\<rparr>);
          node = node_at (if on_A s1 then wlistA s1 else wlistB s1) cur;
          s2 = (if is_intersection node then
                  (if on_A s1 then s1\<lparr>wlistB := set_processed (wlistB s1) (neighbor node)\<rparr>
                   else s1\<lparr>wlistA := set_processed (wlistA s1) (neighbor node)\<rparr>)
                else s1);
          s3 = s2\<lparr>current_result := current_result s2 @ [point node]\<rparr>;
          s4 = (if is_intersection node \<and> is_union \<noteq> is_entering node
                then s3\<lparr>current_iter := neighbor node, on_A := \<not> on_A s3\<rparr> else s3)
      in s4\<lparr>current_iter :=
               next_cyclic (if on_A s4 then wlistA s4 else wlistB s4) (current_iter s4)\<rparr>)"

text \<open>The loop condition: the walk is not back at \<open>it_start\<close> (a node of list A), nor,
  when \<open>it_start\<close> is an intersection, at its twin in list B.\<close>

definition walk_continues :: "nat \<Rightarrow> walk_state \<Rightarrow> bool" where
  "walk_continues it_start s =
     (\<not> (on_A s \<and> current_iter s = it_start) \<and>
      (\<not> is_intersection (node_at (wlistA s) it_start) \<or>
       \<not> (\<not> on_A s \<and> current_iter s = neighbor (node_at (wlistA s) it_start))))"

primrec walk :: "bool \<Rightarrow> nat \<Rightarrow> nat \<Rightarrow> walk_state \<Rightarrow> walk_state" where
  "walk is_union it_start 0 s = s"
| "walk is_union it_start (Suc fuel) s =
     (if walk_continues it_start (walk_body is_union s)
      then walk is_union it_start fuel (walk_body is_union s)
      else walk_body is_union s)"

text \<open>One iteration of the \<open>for it_start\<close> loop over list A.\<close>

definition extract_step ::
  "bool \<Rightarrow> nat \<Rightarrow> vlist \<times> vlist \<times> point list list \<Rightarrow> vlist \<times> vlist \<times> point list list" where
  "extract_step is_union it_start st =
     (case st of (listA, listB, results) \<Rightarrow>
        let start = node_at listA it_start in
        if \<not> is_intersection start \<or> processed start then st
        else if is_union = is_entering start then st
        else
          let max_loops = length (order listA) + length (order listB) + 1;
              s = walk is_union it_start max_loops
                    \<lparr>wlistA = listA, wlistB = listB, on_A = True, current_iter = it_start,
                     current_result = []\<rparr>
          in (wlistA s, wlistB s,
              if length (current_result s) > 2 then results @ [current_result s] else results))"

definition extract_contours :: "bool \<Rightarrow> vlist \<Rightarrow> vlist \<Rightarrow> point list list" where
  "extract_contours is_union listA listB =
     snd (snd (fold (extract_step is_union) (order listA) (listA, listB, [])))"

text \<open>The case without any result contour: containment of one sample vertex each.\<close>

definition fallback_contours :: "BooleanOpType \<Rightarrow> point list \<Rightarrow> point list \<Rightarrow> point list list" where
  "fallback_contours opType polyA polyB =
     (let a_in_b = isPointInsidePolygon (polyA ! 0) polyB;
          b_in_a = isPointInsidePolygon (polyB ! 0) polyA
      in case opType of
           Intersection \<Rightarrow> if a_in_b then [polyA] else if b_in_a then [polyB] else []
         | Union \<Rightarrow> if a_in_b then [polyB] else if b_in_a then [polyA] else [polyA, polyB])"

text \<open>The private copies \<open>polyA\<close>, \<open>polyB\<close>: reversed when \<open>computeAreaSign\<close> is
  positive.\<close>

definition ccw_copy :: "point list \<Rightarrow> point list" where
  "ccw_copy poly = (if computeAreaSign poly > 0 then rev poly else poly)"

definition calculateBooleanOp_WeilerAtherton ::
  "BooleanOpType \<Rightarrow> DrawingWidget \<Rightarrow> DrawingWidget option" where
  "calculateBooleanOp_WeilerAtherton opType w =
     (if length (polygonA w) < 3 \<or> length (polygonB w) < 3
      then Some (w\<lparr>weilerResultPolygons := []\<rparr>)
      else
        let polyA = ccw_copy (polygonA w);
            polyB = ccw_copy (polygonB w);
            listA = list_of_polygon polyA;
            listB = list_of_polygon polyB
        in case find_intersections listA listB (begin_it listA) of
             None \<Rightarrow> None
           | Some (listA', listB') \<Rightarrow>
               let found = extract_contours (opType = Union) listA' listB' in
               Some (w\<lparr>weilerResultPolygons :=
                         (if found = [] \<and> polyA \<noteq> [] \<and> polyB \<noteq> []
                          then fallback_contours opType polyA polyB else found)\<rparr>))"

text \<open>The squares of the scenarios in the specification, and a far-away one.\<close>

definition sqA :: "point list" where
  "sqA = [(0, 0), (4, 0), (4, 4), (0, 4)]"

definition sqB :: "point list" where
  "sqB = [(2, 2), (6, 2), (6, 6), (2, 6)]"



section \<open>Dispatch of the calculations\<close>

text \<open>
  The calculation member functions of the widget. What matters about the dispatch is
  which of them a handler invokes, so a handler is modelled by the sequence of its
  calls, read from its control flow.
\<close>

datatype calc =
    Calc_ConvexHull_Andrew
  | Calc_ConvexHull_Graham
  | Calc_Triangulation
  | Calc_PolygonArea
  | Calc_IntersectionAndUnion
  | Calc_BooleanOp_WeilerAtherton BooleanOpType

text \<open>
  \<open>performCalculation\<close>. The test \<open>currentMode == DRAW_POLYGON_B\<close> is the last
  \<open>else if\<close> of the chain on \<open>taskToPerform\<close>, inside the branch
  \<open>currentMode == DRAW_POLYGON\<close>.
\<close>

definition performCalculation_calls :: "DrawingWidget \<Rightarrow> calc list" where
  "performCalculation_calls w =
     (if currentMode w = ADD_POINTS_CONVEX_HULL then
        (if convexHullAlgorithm w = ''Andrew'' then [Calc_ConvexHull_Andrew]
         else if convexHullAlgorithm w = ''Graham'' then [Calc_ConvexHull_Graham]
         else [])
      else if currentMode w = DRAW_POLYGON then
        (if length (polygonVertices w) < 3 then []
         else if \<not> isSimplePolygon (polygonVertices w) then []
         else if taskToPerform w = ''triangulate'' then [Calc_Triangulation]
         else if taskToPerform w = ''area'' then [Calc_PolygonArea]
         else if currentMode w = DRAW_POLYGON_B \<and> length (polygonB w) \<ge> 3
           then [Calc_IntersectionAndUnion]
         else [])
      else [])"

text \<open>
  The slots and event handlers of the widget. \<open>setTask\<close>, \<open>setMode\<close>,
  \<open>clearScreen\<close>, the two \<open>start...ConvexHull\<close> slots, \<open>paintEvent\<close> and a left
  click call no calculation; a right click calls \<open>performCalculation\<close> in the modes
  \<open>DRAW_POLYGON\<close> and \<open>ADD_POINTS_CONVEX_HULL\<close>; each \<open>show...\<close> slot calls its
  boolean operation unconditionally.
\<close>

datatype handler =
    SetTask string
  | SetMode Mode
  | ClearScreen
  | PerformCalculation
  | StartAndrewConvexHull
  | StartGrahamConvexHull
  | PaintEvent
  | MousePress_Left point
  | MousePress_Right
  | ShowIntersection_QPainterPath
  | ShowUnion_QPainterPath
  | ShowIntersection_Weiler
  | ShowUnion_Weiler

definition mousePress_Right_calls :: "DrawingWidget \<Rightarrow> calc list" where
  "mousePress_Right_calls w =
     (if currentMode w = DRAW_POLYGON_A \<and> length (polygonA w) \<ge> 3 then []
      else if currentMode w = DRAW_POLYGON_B \<and> length (polygonB w) \<ge> 3 then []
      else if currentMode w = DRAW_POLYGON \<and> length (polygonVertices w) \<ge> 3 then
        (if \<not> isSimplePolygon (polygonVertices w) then [] else performCalculation_calls w)
      else if currentMode w = ADD_POINTS_CONVEX_HULL \<and> length (points w) \<ge> 3 then
        performCalculation_calls w
      else [])"

fun calls_of :: "handler \<Rightarrow> DrawingWidget \<Rightarrow> calc list" where
  "calls_of PerformCalculation w = performCalculation_calls w"
| "calls_of MousePress_Right w = mousePress_Right_calls w"
| "calls_of ShowIntersection_QPainterPath w = [Calc_IntersectionAndUnion]"
| "calls_of ShowUnion_QPainterPath w = [Calc_IntersectionAndUnion]"
| "calls_of ShowIntersection_Weiler w = [Calc_BooleanOp_WeilerAtherton Intersection]"
| "calls_of ShowUnion_Weiler w = [Calc_BooleanOp_WeilerAtherton Union]"
| "calls_of _ w = []"

section \<open>Auxiliary notions for the proofs\<close>

text \<open>The widget as the constructor leaves it.\<close>

definition initial_widget :: DrawingWidget where
  "initial_widget =
     \<lparr>polygonA = [], polygonB = [], currentMode = IDLE, taskToPerform = [],
      convexHullAlgorithm = [], displayMode = [], polygonsReadyForOperation = False,
      points = [], convexHull = [], polygonVertices = [], triangles = [],
      weilerResultPolygons = [], polygonArea = - 1, triangleCount = - 1\<rparr>"

text \<open>
  Two triangles that touch in the vertex \<open>(1, 1)\<close>, drawn as one polygon of six pixel
  positions. Its two non-adjacent occurrences of \<open>(1, 1)\<close> are shared end points of
  edges, which the validator accepts.
\<close>

definition pinched :: "point list" where
  "pinched = [(0, 0), (2, 0), (1, 1), (2, 2), (0, 2), (1, 1)]"

definition square10 :: "point list" where
  "square10 = [(0, 0), (10, 0), (10, 10), (0, 10)]"

definition cyc_term :: "point list \<Rightarrow> nat \<Rightarrow> real" where
  "cyc_term pts i = px (pts ! i) * py (pts ! ((i + 1) mod length pts))
                    - px (pts ! ((i + 1) mod length pts)) * py (pts ! i)"

text \<open>A point with whole-number coordinates.\<close>

definition whole :: "point \<Rightarrow> bool" where
  "whole p = (of_int \<lfloor>px p\<rfloor> = px p \<and> of_int \<lfloor>py p\<rfloor> = py p)"

text \<open>
  A pixel position: whole-number coordinates of magnitude at most \<open>2^25\<close>, far more
  than any screen has. For such points every difference of coordinates is at most
  \<open>2^26\<close> and every product in the orientation test at most \<open>2^53\<close> in magnitude, so
  the double arithmetic and the conversions to \<open>long long\<close> of the source are exact.
\<close>

definition pixel :: "point \<Rightarrow> bool" where
  "pixel p = (whole p \<and> \<bar>px p\<bar> \<le> 2 ^ 25 \<and> \<bar>py p\<bar> \<le> 2 ^ 25)"

text \<open>
  Two segments cross when the lines through them are not parallel and their common
  point lies strictly inside both, at the parameters \<open>t\<close> and \<open>u\<close> that
  \<open>getLineSegmentIntersection\<close> computes.
\<close>

definition edges_cross :: "point \<Rightarrow> point \<Rightarrow> point \<Rightarrow> point \<Rightarrow> bool" where
  "edges_cross a b c d =
     (seg_det a b c d \<noteq> 0 \<and> 0 < seg_t a b c d \<and> seg_t a b c d < 1
        \<and> 0 < seg_u a b c d \<and> seg_u a b c d < 1)"

text \<open>Edges \<open>i\<close> and \<open>j\<close> of a polygon with \<open>n\<close> vertices that are neither equal nor
  neighbours: the pairs that \<open>isSimplePolygon\<close> does not skip.\<close>

definition non_adjacent :: "nat \<Rightarrow> nat \<Rightarrow> nat \<Rightarrow> bool" where
  "non_adjacent n i j = (i < n \<and> j < n \<and> i \<noteq> j \<and> j \<noteq> (i + 1) mod n \<and> i \<noteq> (j + 1) mod n)"

text \<open>A quadrilateral with whole-number coordinates of side \<open>4 * 10^9\<close> whose edges 0
  and 2 cross; the products of its orientation test exceed \<open>2^63\<close>.\<close>

definition wide_bowtie :: "point list" where
  "wide_bowtie = [(0, 0), (4000000000, 4000000000), (4000000000, 0), (0, 4000000000)]"

text \<open>The shoelace terms along an open path.\<close>

fun path_sum :: "point list \<Rightarrow> real" where
  "path_sum (a # b # rest) = (px a * py b - px b * py a) + path_sum (b # rest)"
| "path_sum _ = 0"

text \<open>The area of a triangle, by the shoelace formula of \<open>calculatePolygonArea\<close>.\<close>

definition triangle_area :: "Triangle \<Rightarrow> real" where
  "triangle_area t = \<bar>computeAreaSign [p1 t, p2 t, p3 t]\<bar> / 2"

text \<open>A quadrilateral of pixel positions whose edges 0 and 2 cross.\<close>

definition bowtie :: "point list" where
  "bowtie = [(0, 0), (2, 2), (2, 0), (0, 2)]"

text \<open>
  No pair of an edge of \<open>polyA\<close> and an edge of \<open>polyB\<close> has an intersection that
  \<open>getLineSegmentIntersection\<close> reports: the intersection loops of the Weiler-Atherton
  routine insert no node.
\<close>

definition no_strict_intersections :: "point list \<Rightarrow> point list \<Rightarrow> bool" where
  "no_strict_intersections polyA polyB =
     list_all (\<lambda>i. list_all (\<lambda>j.
         getLineSegmentIntersection (polyA ! i) (polyA ! ((i + 1) mod length polyA))
                                    (polyB ! j) (polyB ! ((j + 1) mod length polyB)) = None)
       [0..<length polyB]) [0..<length polyA]"


text \<open>What one run of the ear loop preserves: the number of vertices plus triangles, and
  the signed area still to be cut plus the area already cut.\<close>

definition ear_inv :: "point list \<Rightarrow> Triangle list \<Rightarrow> point list \<times> Triangle list \<times> nat \<Rightarrow> bool" where
  "ear_inv r t y =
     (length (fst (snd y)) + length (fst y) = length t + length r \<and>
      computeAreaSign (fst y) / 2 + sum_list (map triangle_area (fst (snd y)))
        = computeAreaSign r / 2 + sum_list (map triangle_area t))"

section \<open>Polygon area\<close>

lemma fold_shoelace_step:
  "fold (shoelace_step pts) [0..<n] a =
     a + (\<Sum>i<n. px (pts ! i) * py (pts ! ((i + 1) mod length pts))
                 - px (pts ! ((i + 1) mod length pts)) * py (pts ! i))"
  by (induction n arbitrary: a) (simp_all add: shoelace_step_def)

lemma computeAreaSign_sum: "computeAreaSign pts = (\<Sum>i<length pts. cyc_term pts i)"
  by (simp add: computeAreaSign_def fold_shoelace_step cyc_term_def)

lemma sum_shift1:
  fixes h :: "nat \<Rightarrow> real"
  assumes "0 < n"
  shows "(\<Sum>i<n. h ((i + 1) mod n)) = (\<Sum>i<n. h i)"
proof -
  obtain m where n: "n = Suc m" using assms by (cases n) auto
  have "(\<Sum>i<Suc m. h ((i + 1) mod Suc m)) = (\<Sum>i<m. h ((i + 1) mod Suc m)) + h 0"
    by simp
  also have "(\<Sum>i<m. h ((i + 1) mod Suc m)) = (\<Sum>i<m. h (Suc i))"
    by (rule sum.cong) simp_all
  also have "(\<Sum>i<m. h (Suc i)) + h 0 = (\<Sum>i<Suc m. h i)"
    using sum.lessThan_Suc_shift[of h m] by simp
  finally show ?thesis by (simp add: n)
qed

lemma sum_reflect_succ:
  fixes h :: "nat \<Rightarrow> real"
  assumes "0 < n"
  shows "(\<Sum>i<n. h (n - 1 - (i + 1) mod n)) = (\<Sum>i<n. h i)"
proof -
  define g where "g m = h (n - 1 - m)" for m
  have "(\<Sum>i<n. h (n - 1 - (i + 1) mod n)) = (\<Sum>i<n. g ((i + 1) mod n))"
    by (simp add: g_def)
  also have "\<dots> = (\<Sum>m<n. g m)"
    by (rule sum_shift1[OF assms])
  also have "\<dots> = (\<Sum>i<n. h i)"
    unfolding g_def
    by (rule sum.reindex_bij_witness[where i = "\<lambda>i. n - 1 - i" and j = "\<lambda>m. n - 1 - m"]) auto
  finally show ?thesis .
qed

lemma succ_reflect_mod:
  fixes i n :: nat
  assumes "i < n"
  shows "((n - 1 - (i + 1) mod n) + 1) mod n = n - 1 - i"
proof (cases "i + 1 = n")
  case True
  then have "(i + 1) mod n = 0" by simp
  then have "((n - 1 - (i + 1) mod n) + 1) = n" using assms by simp
  then show ?thesis using True by simp
next
  case False
  then have "i + 1 < n" using assms by simp
  then show ?thesis by simp
qed

lemma nth_rotate1_mod:
  assumes "i < length xs"
  shows "rotate1 xs ! i = xs ! ((i + 1) mod length xs)"
  using assms by (metis Suc_eq_plus1 nth_rotate1)

lemma cyc_term_rotate1:
  assumes "i < length pts"
  shows "cyc_term (rotate1 pts) i = cyc_term pts ((i + 1) mod length pts)"
proof -
  let ?n = "length pts"
  have n: "0 < ?n" using assms by auto
  have lt: "(i + 1) mod ?n < ?n" using n by simp
  have a: "rotate1 pts ! i = pts ! ((i + 1) mod ?n)"
    by (rule nth_rotate1_mod[OF assms])
  have b: "rotate1 pts ! ((i + 1) mod ?n) = pts ! (((i + 1) mod ?n + 1) mod ?n)"
    by (rule nth_rotate1_mod[OF lt])
  show ?thesis unfolding cyc_term_def length_rotate1 a b ..
qed

lemma computeAreaSign_rotate1: "computeAreaSign (rotate1 pts) = computeAreaSign pts"
proof (cases "pts = []")
  case True
  then show ?thesis by simp
next
  case False
  then have n: "0 < length pts" by simp
  have "computeAreaSign (rotate1 pts) = (\<Sum>i<length pts. cyc_term (rotate1 pts) i)"
    by (simp add: computeAreaSign_sum)
  also have "\<dots> = (\<Sum>i<length pts. cyc_term pts ((i + 1) mod length pts))"
    by (rule sum.cong) (simp_all only: cyc_term_rotate1 lessThan_iff)
  also have "\<dots> = (\<Sum>i<length pts. cyc_term pts i)"
    by (rule sum_shift1[OF n])
  finally show ?thesis by (simp add: computeAreaSign_sum)
qed

lemma computeAreaSign_rotate: "computeAreaSign (rotate k pts) = computeAreaSign pts"
  by (induction k) (simp_all add: computeAreaSign_rotate1)

lemma cyc_term_rev:
  assumes "i < length pts"
  shows "cyc_term (rev pts) i = - cyc_term pts (length pts - 1 - (i + 1) mod length pts)"
proof -
  let ?n = "length pts"
  let ?j = "?n - 1 - (i + 1) mod ?n"
  have n: "0 < ?n" using assms by auto
  have lt: "(i + 1) mod ?n < ?n" using n by simp
  have a: "rev pts ! i = pts ! ((?j + 1) mod ?n)"
    unfolding succ_reflect_mod[OF assms] using assms by (simp add: rev_nth)
  have b: "rev pts ! ((i + 1) mod ?n) = pts ! ?j"
    using lt by (simp add: rev_nth)
  show ?thesis unfolding cyc_term_def length_rev a b by simp
qed

lemma computeAreaSign_rev: "computeAreaSign (rev pts) = - computeAreaSign pts"
proof (cases "pts = []")
  case True
  then show ?thesis by (simp add: computeAreaSign_def)
next
  case False
  then have n: "0 < length pts" by simp
  have "computeAreaSign (rev pts) = (\<Sum>i<length pts. cyc_term (rev pts) i)"
    by (simp add: computeAreaSign_sum)
  also have "\<dots> = (\<Sum>i<length pts. - cyc_term pts (length pts - 1 - (i + 1) mod length pts))"
    by (rule sum.cong) (simp_all only: cyc_term_rev lessThan_iff)
  also have "\<dots> = - (\<Sum>i<length pts. cyc_term pts (length pts - 1 - (i + 1) mod length pts))"
    by (simp only: sum_negf)
  also have "\<dots> = - (\<Sum>i<length pts. cyc_term pts i)"
    by (simp only: sum_reflect_succ[OF n])
  finally show ?thesis by (simp add: computeAreaSign_sum)
qed

lemma polygonArea_calculatePolygonArea:
  "polygonArea (calculatePolygonArea w) = \<bar>computeAreaSign (polygonVertices w)\<bar> / 2"
  by (simp add: calculatePolygonArea_def computeAreaSign_def)

text \<open>
  Claim C8. The area that \<open>calculatePolygonArea\<close> stores is the same for a vertex list,
  for each of its cyclic rotations and for its reversal.
\<close>

theorem area_invariant_rotation_reversal:
  "polygonArea (calculatePolygonArea (w\<lparr>polygonVertices := rotate k vs\<rparr>))
     = polygonArea (calculatePolygonArea (w\<lparr>polygonVertices := vs\<rparr>))
   \<and> polygonArea (calculatePolygonArea (w\<lparr>polygonVertices := rev vs\<rparr>))
     = polygonArea (calculatePolygonArea (w\<lparr>polygonVertices := vs\<rparr>))"
  by (simp add: polygonArea_calculatePolygonArea computeAreaSign_rotate computeAreaSign_rev)

section \<open>Segment intersection\<close>

lemma seg_t_shared:
  "seg_t a b a d = 0" "seg_t a b c a = 0"
  by (simp_all add: seg_t_def algebra_simps)

lemma seg_t_shared_end1:
  assumes "seg_det a b b d \<noteq> 0"
  shows "seg_t a b b d = 1"
proof -
  have "(px b - px a) * (py d - py b) - (py b - py a) * (px d - px b) = seg_det a b b d"
    by (simp add: seg_det_def)
  then show ?thesis using assms by (simp add: seg_t_def)
qed

lemma seg_t_shared_end2:
  assumes "seg_det a b c b \<noteq> 0"
  shows "seg_t a b c b = 1"
proof -
  have "(px c - px a) * (py b - py c) - (py c - py a) * (px b - px c) = seg_det a b c b"
    by (simp add: seg_det_def algebra_simps)
  then show ?thesis using assms by (simp add: seg_t_def)
qed

lemma getLineSegmentIntersection_shared_endpoint:
  assumes "a = c \<or> a = d \<or> b = c \<or> b = d"
  shows "getLineSegmentIntersection a b c d = None"
proof (cases "\<bar>seg_det a b c d\<bar> < EPSILON")
  case True
  then show ?thesis by (simp add: getLineSegmentIntersection_def)
next
  case False
  then have nz: "seg_det a b c d \<noteq> 0" by (auto simp: EPSILON_def)
  have "seg_t a b c d = 0 \<or> seg_t a b c d = 1"
    using assms nz seg_t_shared seg_t_shared_end1 seg_t_shared_end2 by metis
  then show ?thesis
    by (auto simp: getLineSegmentIntersection_def Let_def EPSILON_def)
qed

text \<open>
  Claim C7. \<open>getLineSegmentIntersection\<close> returns nothing when the determinant is below
  \<open>1e-9\<close> in absolute value; when it returns a point, both parameters \<open>t\<close> and \<open>u\<close> lie
  strictly between \<open>1e-9\<close> and \<open>1 - 1e-9\<close>, the reported position is \<open>t\<close> and the point
  is \<open>p1 + t (p2 - p1)\<close>; two segments that share an end point give no intersection.
\<close>

theorem getLineSegmentIntersection_interior_only:
  "(\<bar>seg_det a b c d\<bar> < 1 / 10 ^ 9 \<longrightarrow> getLineSegmentIntersection a b c d = None) \<and>
   (\<forall>pt t. getLineSegmentIntersection a b c d = Some (pt, t) \<longrightarrow>
      1 / 10 ^ 9 < t \<and> t < 1 - 1 / 10 ^ 9 \<and>
      1 / 10 ^ 9 < seg_u a b c d \<and> seg_u a b c d < 1 - 1 / 10 ^ 9 \<and>
      t = seg_t a b c d \<and>
      pt = (px a + t * (px b - px a), py a + t * (py b - py a))) \<and>
   (a = c \<or> a = d \<or> b = c \<or> b = d \<longrightarrow> getLineSegmentIntersection a b c d = None)"
proof (intro conjI allI impI)
  assume "\<bar>seg_det a b c d\<bar> < 1 / 10 ^ 9"
  then show "getLineSegmentIntersection a b c d = None"
    by (simp add: getLineSegmentIntersection_def EPSILON_def)
next
  fix pt t
  assume r: "getLineSegmentIntersection a b c d = Some (pt, t)"
  then have t: "t = seg_t a b c d"
    by (auto simp: getLineSegmentIntersection_def Let_def split: if_splits)
  from r have inside: "seg_t a b c d > EPSILON \<and> seg_t a b c d < 1 - EPSILON \<and>
      seg_u a b c d > EPSILON \<and> seg_u a b c d < 1 - EPSILON"
    by (auto simp: getLineSegmentIntersection_def Let_def split: if_splits)
  from r show "pt = (px a + t * (px b - px a), py a + t * (py b - py a))"
    by (auto simp: getLineSegmentIntersection_def Let_def split: if_splits)
  show "t = seg_t a b c d" by (rule t)
  show "1 / 10 ^ 9 < t" "t < 1 - 1 / 10 ^ 9"
    using inside t by (simp_all add: EPSILON_def)
  show "1 / 10 ^ 9 < seg_u a b c d" "seg_u a b c d < 1 - 1 / 10 ^ 9"
    using inside by (simp_all add: EPSILON_def)
next
  assume "a = c \<or> a = d \<or> b = c \<or> b = d"
  then show "getLineSegmentIntersection a b c d = None"
    by (rule getLineSegmentIntersection_shared_endpoint)
qed

theorem getLineSegmentIntersection_interior_only_witness:
  "getLineSegmentIntersection (0, 0) (2, 2) (0, 2) (2, 0) = Some ((1, 1), 1 / 2) \<and>
   1 / 10 ^ 9 < seg_u (0, 0) (2, 2) (0, 2) (2, 0) \<and>
   getLineSegmentIntersection (0, 0) (2, 0) (0, 1) (2, 1) = None \<and>
   getLineSegmentIntersection (0, 0) (2, 0) (2, 0) (2, 2) = None"
proof -
  have r: "getLineSegmentIntersection (0, 0) (2, 2) (0, 2) (2, 0) = Some ((1, 1), 1 / 2)"
    by (simp add: getLineSegmentIntersection_def seg_det_def seg_t_def seg_u_def
        EPSILON_def Let_def)
  have d: "\<bar>seg_det (0, 0) (2, 0) (0, 1) (2, 1)\<bar> < 1 / 10 ^ 9"
    by (simp add: seg_det_def)
  have e: "(0, 0) = (2, 0) \<or> (0, 0) = (2, 2) \<or> (2, 0) = ((2, 0) :: point) \<or> (2, 0) = ((2, 2) :: point)"
    by simp
  show ?thesis
    using getLineSegmentIntersection_interior_only[of "(0, 0)" "(2, 2)" "(0, 2)" "(2, 0)"]
      getLineSegmentIntersection_interior_only[of "(0, 0)" "(2, 0)" "(0, 1)" "(2, 1)"]
      getLineSegmentIntersection_interior_only[of "(0, 0)" "(2, 0)" "(2, 0)" "(2, 2)"]
      r d e
    by blast
qed

section \<open>Winding normalisation before ear clipping\<close>

lemma normalise_winding_eq:
  "normalise_winding r = (if computeAreaSign r < 0 then rev r else r)"
  by (simp add: normalise_winding_def computeAreaSign_def)

lemma computeAreaSign_square10: "computeAreaSign square10 = 200"
  by (simp add: computeAreaSign_def square10_def shoelace_step_def upt_rec)

text \<open>
  Claim C6, as stated, has the triangulation reverse the vertex order exactly when the
  shoelace sum is positive. It fails on the square \<open>(0,0), (10,0), (10,10), (0,10)\<close>:
  the sum is \<open>200\<close> and the working list is the input, not its reversal; on the
  reversed square the sum is \<open>-200\<close> and the list is reversed.
\<close>

theorem winding_convention_counterexample:
  "computeAreaSign square10 > 0 \<and>
   normalise_winding (drop_closing square10) = square10 \<and>
   square10 \<noteq> rev square10 \<and>
   computeAreaSign (rev square10) < 0 \<and>
   normalise_winding (drop_closing (rev square10)) = square10"
proof -
  have a: "computeAreaSign square10 = 200" by (rule computeAreaSign_square10)
  have b: "computeAreaSign (rev square10) = - 200"
    by (simp add: computeAreaSign_rev a)
  have c: "drop_closing square10 = square10" "drop_closing (rev square10) = rev square10"
    by (simp_all add: drop_closing_def square10_def)
  have d: "square10 \<noteq> rev square10" by (simp add: square10_def)
  show ?thesis by (simp add: a b c d normalise_winding_eq)
qed

text \<open>
  Claim C6, amended. The triangulation computes the shoelace sum of the working list
  (after dropping a duplicated closing vertex) and reverses the list exactly when that
  sum is negative; the resulting list has the absolute value of the sum as its own sum,
  which is never negative. This is the orientation in which a convex corner has a
  positive \<open>crossProduct\<close>, and the opposite sign test to the one the Weiler-Atherton
  routine applies to \<open>computeAreaSign\<close>.
\<close>

theorem winding_normalised_nonnegative:
  "normalise_winding r = (if computeAreaSign r < 0 then rev r else r) \<and>
   computeAreaSign (normalise_winding r) = \<bar>computeAreaSign r\<bar> \<and>
   0 \<le> computeAreaSign (normalise_winding r)"
  by (simp add: normalise_winding_eq computeAreaSign_rev)

theorem winding_normalised_nonnegative_witness:
  "normalise_winding (rev square10) = square10 \<and>
   computeAreaSign (normalise_winding (rev square10)) = 200"
  using winding_normalised_nonnegative[of "rev square10"]
  by (simp add: computeAreaSign_rev computeAreaSign_square10)

section \<open>Termination of ear clipping\<close>

lemma ear_loop_stuck_aux:
  "ear_loop maxAttempts remaining tris attempts = Some y \<Longrightarrow>
   \<not> (scan_ears remaining [0..<length remaining] = None \<and> 3 < length remaining
      \<and> attempts < maxAttempts)"
proof (rule ear_loop.raw_induct[where P = "\<lambda>m r t a y.
         \<not> (scan_ears r [0..<length r] = None \<and> 3 < length r \<and> a < m)"])
  fix f :: "nat \<Rightarrow> point list \<Rightarrow> Triangle list \<Rightarrow> nat \<Rightarrow> (point list \<times> Triangle list \<times> nat) option"
    and m r t a y
  assume IH: "\<And>m r t a y. f m r t a = Some y \<Longrightarrow>
                \<not> (scan_ears r [0..<length r] = None \<and> 3 < length r \<and> a < m)"
    and step: "(if 3 < length r \<and> a < m
      then case scan_ears r [0..<length r] of
           None \<Rightarrow> f m r t a
           | Some i \<Rightarrow> f m (remove_at ((i + 1) mod length r) r) (t @ [ear_at r i]) 0
      else Some (r, t, a)) = Some y"
  show "\<not> (scan_ears r [0..<length r] = None \<and> 3 < length r \<and> a < m)"
  proof
    assume st: "scan_ears r [0..<length r] = None \<and> 3 < length r \<and> a < m"
    with step have "f m r t a = Some y" by simp
    from IH[OF this] st show False by simp
  qed
qed

text \<open>A pass that finds no ear repeats for ever: the loop state does not change.\<close>

lemma ear_loop_stuck:
  assumes "scan_ears remaining [0..<length remaining] = None"
    and "3 < length remaining" and "attempts < maxAttempts"
  shows "ear_loop maxAttempts remaining tris attempts = None"
proof (cases "ear_loop maxAttempts remaining tris attempts")
  case None
  then show ?thesis .
next
  case (Some y)
  from ear_loop_stuck_aux[OF this] assms show ?thesis by simp
qed

text \<open>The counter \<open>attempts\<close> is \<open>0\<close> whenever the loop is left.\<close>

lemma ear_loop_attempts_aux:
  "ear_loop m r t a = Some y \<Longrightarrow> a = 0 \<longrightarrow> snd (snd y) = 0"
proof (rule ear_loop.raw_induct[where P = "\<lambda>m r t a y. a = 0 \<longrightarrow> snd (snd y) = 0"])
  fix f :: "nat \<Rightarrow> point list \<Rightarrow> Triangle list \<Rightarrow> nat \<Rightarrow> (point list \<times> Triangle list \<times> nat) option"
    and m r t a y
  assume IH: "\<And>m r t a y. f m r t a = Some y \<Longrightarrow> a = 0 \<longrightarrow> snd (snd y) = 0"
    and step: "(if 3 < length r \<and> a < m
      then case scan_ears r [0..<length r] of
           None \<Rightarrow> f m r t a
           | Some i \<Rightarrow> f m (remove_at ((i + 1) mod length r) r) (t @ [ear_at r i]) 0
      else Some (r, t, a)) = Some y"
  show "a = 0 \<longrightarrow> snd (snd y) = 0"
    using step IH by (auto split: if_splits option.splits)
qed

lemma pinched_simple: "isSimplePolygon pinched"
  by code_simp

lemma pinched_no_ear: "scan_ears pinched [0..<length pinched] = None"
  by code_simp

lemma pinched_working_list: "normalise_winding (drop_closing pinched) = pinched"
  by code_simp

text \<open>
  Claim C1. The claim says the triangulation always terminates, giving up after at most
  \<open>2n\<close> restarts. On the six pixel positions of \<open>pinched\<close>, which pass the validator,
  no corner is a valid ear, the counter \<open>attempts\<close> is never increased, and the call
  does not return.
\<close>

theorem triangulation_diverges_on_pinched:
  "calculateTriangulation (initial_widget\<lparr>currentMode := DRAW_POLYGON,
       taskToPerform := ''triangulate'', polygonVertices := pinched\<rparr>) = None"
proof -
  have len: "length pinched = 6" by (simp add: pinched_def)
  have "ear_loop (6 * 2) pinched [] 0 = None"
    using pinched_no_ear by (intro ear_loop_stuck) (simp_all add: len)
  then show ?thesis
    by (simp add: calculateTriangulation_def pinched_simple pinched_working_list len)
qed

text \<open>
  The exit that reports the stall and clears the triangle list is never taken: it needs
  \<open>attempts \<ge> 2n\<close> with \<open>attempts = 0\<close>, and the working list of an accepted polygon
  is not empty.
\<close>

lemma length_normalise_winding: "length (normalise_winding r) = length r"
  by (simp add: normalise_winding_eq)

lemma length_drop_closing: "length (drop_closing pv) \<ge> length pv - 1"
  by (simp add: drop_closing_def)

lemma triangulation_never_reports_stall:
  "calculateTriangulation w \<noteq> Some (Warn_cannot_continue, w')"
proof
  assume a: "calculateTriangulation w = Some (Warn_cannot_continue, w')"
  let ?r = "normalise_winding (drop_closing (polygonVertices w))"
  from a have ge: "3 \<le> length (polygonVertices w)"
    by (auto simp: calculateTriangulation_def split: if_splits)
  then have pos: "0 < length ?r"
    using length_drop_closing[of "polygonVertices w"]
    unfolding length_normalise_winding by linarith
  from a obtain r' t' a' where
    res: "ear_loop (length ?r * 2) ?r [] 0 = Some (r', t', a')" and big: "length ?r * 2 \<le> a'"
    by (auto simp: calculateTriangulation_def Let_def split: if_splits option.splits)
  from ear_loop_attempts_aux[OF res] have "a' = 0" by simp
  with big pos show False by simp
qed


section \<open>What the validator rejects\<close>

text \<open>
  Claim C4, as stated, fails in two ways. A polygon of three vertices is accepted
  whatever its vertices are, so the triangle \<open>(0,0), (0,0), (1,1)\<close> with a zero-length
  edge is accepted. And the orientation test is computed in \<open>long long\<close>: in
  \<open>wide_bowtie\<close>, with whole-number coordinates, the edges 0 and 2 cross, all four
  orientation products are beyond the range of \<open>long long\<close>, and the polygon is
  accepted.
\<close>

theorem isSimplePolygon_accepts_counterexample:
  "isSimplePolygon [(0, 0), (0, 0), (1, 1)] \<and>
   [(0, 0), (0, 0), (1, 1) :: point] ! 0 = [(0, 0), (0, 0), (1, 1) :: point] ! ((0 + 1) mod 3) \<and>
   isSimplePolygon wide_bowtie \<and> list_all whole wide_bowtie \<and>
   non_adjacent (length wide_bowtie) 0 2 \<and>
   edges_cross (wide_bowtie ! 0) (wide_bowtie ! 1) (wide_bowtie ! 2) (wide_bowtie ! 3)"
  by code_simp

lemma to_long_long_of_int:
  assumes "\<bar>k\<bar> \<le> 2 ^ 53"
  shows "to_long_long (of_int k) = k"
proof -
  have "(2::int) ^ 53 \<le> 2 ^ 63 - 1" by simp
  with assms have "LLONG_MIN \<le> k \<and> k \<le> LLONG_MAX"
    unfolding LLONG_MIN_def LLONG_MAX_def by linarith
  then show ?thesis by (simp add: to_long_long_def)
qed

lemma pixel_obtain:
  assumes "pixel p"
  obtains x y :: int where "p = (of_int x, of_int y)" "\<bar>x\<bar> \<le> 2 ^ 25" "\<bar>y\<bar> \<le> 2 ^ 25"
proof -
  from assms have x: "of_int \<lfloor>px p\<rfloor> = px p" and y: "of_int \<lfloor>py p\<rfloor> = py p"
    and bx: "\<bar>px p\<bar> \<le> 2 ^ 25" and "by": "\<bar>py p\<bar> \<le> 2 ^ 25"
    unfolding pixel_def whole_def by blast+
  have "\<bar>(of_int \<lfloor>px p\<rfloor> :: real)\<bar> \<le> 2 ^ 25" unfolding x by (rule bx)
  then have "(of_int \<bar>\<lfloor>px p\<rfloor>\<bar> :: real) \<le> of_int (2 ^ 25)" by simp
  then have 1: "\<bar>\<lfloor>px p\<rfloor>\<bar> \<le> 2 ^ 25" by (simp only: of_int_le_iff)
  have "\<bar>(of_int \<lfloor>py p\<rfloor> :: real)\<bar> \<le> 2 ^ 25" unfolding y by (rule "by")
  then have "(of_int \<bar>\<lfloor>py p\<rfloor>\<bar> :: real) \<le> of_int (2 ^ 25)" by simp
  then have 2: "\<bar>\<lfloor>py p\<rfloor>\<bar> \<le> 2 ^ 25" by (simp only: of_int_le_iff)
  have "p = (of_int \<lfloor>px p\<rfloor>, of_int \<lfloor>py p\<rfloor>)" unfolding x y by simp
  then show ?thesis using 1 2 that by blast
qed

lemma abs_diff_bound:
  fixes u v :: int
  assumes "\<bar>u\<bar> \<le> 2 ^ 25" "\<bar>v\<bar> \<le> 2 ^ 25"
  shows "\<bar>u - v\<bar> \<le> 2 ^ 26"
  using assms by simp

lemma abs_mult_bound:
  fixes u v :: int
  assumes "\<bar>u\<bar> \<le> 2 ^ 26" "\<bar>v\<bar> \<le> 2 ^ 26"
  shows "\<bar>u * v\<bar> \<le> 2 ^ 52"
proof -
  have "\<bar>u\<bar> * \<bar>v\<bar> \<le> 2 ^ 26 * 2 ^ 26"
    by (rule mult_mono) (use assms in simp_all)
  then show ?thesis by (simp add: abs_mult)
qed

text \<open>On pixel positions the orientation value of \<open>segmentsIntersect\<close> is the exact
  cross product.\<close>

lemma cross_ll_pixel:
  assumes "pixel a" "pixel b" "pixel c"
  shows "of_int (cross_ll a b c) = crossProduct a b c"
proof -
  obtain ax ay where a: "a = (of_int ax, of_int ay)" and ba: "\<bar>ax\<bar> \<le> 2 ^ 25" "\<bar>ay\<bar> \<le> 2 ^ 25"
    using assms(1) by (rule pixel_obtain)
  obtain bx "by" where b: "b = (of_int bx, of_int by)" and bb: "\<bar>bx\<bar> \<le> 2 ^ 25" "\<bar>by\<bar> \<le> 2 ^ 25"
    using assms(2) by (rule pixel_obtain)
  obtain cx cy where c: "c = (of_int cx, of_int cy)" and bc: "\<bar>cx\<bar> \<le> 2 ^ 25" "\<bar>cy\<bar> \<le> 2 ^ 25"
    using assms(3) by (rule pixel_obtain)
  have d1: "\<bar>bx - ax\<bar> \<le> 2 ^ 26" by (rule abs_diff_bound[OF bb(1) ba(1)])
  have d2: "\<bar>by - ay\<bar> \<le> 2 ^ 26" by (rule abs_diff_bound[OF bb(2) ba(2)])
  have d3: "\<bar>cy - ay\<bar> \<le> 2 ^ 26" by (rule abs_diff_bound[OF bc(2) ba(2)])
  have d4: "\<bar>cx - ax\<bar> \<le> 2 ^ 26" by (rule abs_diff_bound[OF bc(1) ba(1)])
  have m1: "\<bar>(bx - ax) * (cy - ay)\<bar> \<le> 2 ^ 52" by (rule abs_mult_bound[OF d1 d3])
  have m2: "\<bar>(by - ay) * (cx - ax)\<bar> \<le> 2 ^ 52" by (rule abs_mult_bound[OF d2 d4])
  have m3: "\<bar>(bx - ax) * (cy - ay) - (by - ay) * (cx - ax)\<bar> \<le> 2 ^ 53"
    using m1 m2 by simp
  have s1: "\<bar>bx - ax\<bar> \<le> 2 ^ 53" using d1 by simp
  have s2: "\<bar>by - ay\<bar> \<le> 2 ^ 53" using d2 by simp
  have 1: "to_long_long (of_int bx - of_int ax) = bx - ax"
    using to_long_long_of_int[OF s1] by simp
  have 2: "to_long_long (of_int by - of_int ay) = by - ay"
    using to_long_long_of_int[OF s2] by simp
  have 3: "of_int (bx - ax) * (of_int cy - of_int ay) - of_int (by - ay) * (of_int cx - of_int ax)
      = (of_int ((bx - ax) * (cy - ay) - (by - ay) * (cx - ax)) :: real)"
    by simp
  show ?thesis
    unfolding cross_ll_def crossProduct_def a b c fst_conv snd_conv 1 2 3
      to_long_long_of_int[OF m3]
    by simp
qed

lemma opposite_from_param:
  fixes o1 o2 :: real
  assumes "o2 - o1 \<noteq> 0" "0 < - o1 / (o2 - o1)" "- o1 / (o2 - o1) < 1"
  shows "(o1 > 0 \<and> o2 < 0) \<or> (o1 < 0 \<and> o2 > 0)"
proof (cases "o2 - o1 > 0")
  case True
  with assms show ?thesis by (simp add: field_simps)
next
  case False
  with assms have neg: "o2 - o1 < 0" by simp
  with assms show ?thesis by (simp add: field_simps)
qed

lemma edges_cross_orient:
  assumes "edges_cross a b c d"
  shows "((crossProduct a b c > 0 \<and> crossProduct a b d < 0) \<or> (crossProduct a b c < 0 \<and> crossProduct a b d > 0))
       \<and> ((crossProduct c d a > 0 \<and> crossProduct c d b < 0) \<or> (crossProduct c d a < 0 \<and> crossProduct c d b > 0))"
proof -
  have d1: "seg_det a b c d = crossProduct a b d - crossProduct a b c"
    by (simp add: seg_det_def crossProduct_def algebra_simps)
  have d2: "seg_det a b c d = - crossProduct c d b - (- crossProduct c d a)"
    by (simp add: seg_det_def crossProduct_def algebra_simps)
  have u: "seg_u a b c d = - crossProduct a b c / (crossProduct a b d - crossProduct a b c)"
    unfolding seg_u_def d1 by (simp add: crossProduct_def)
  have t: "seg_t a b c d = - (- crossProduct c d a) / (- crossProduct c d b - (- crossProduct c d a))"
    unfolding seg_t_def d2 by (simp add: crossProduct_def algebra_simps)
  from assms have A: "crossProduct a b d - crossProduct a b c \<noteq> 0"
     "0 < - crossProduct a b c / (crossProduct a b d - crossProduct a b c)"
     "- crossProduct a b c / (crossProduct a b d - crossProduct a b c) < 1"
    unfolding edges_cross_def u d1 by simp_all
  from assms have B: "- crossProduct c d b - (- crossProduct c d a) \<noteq> 0"
     "0 < - (- crossProduct c d a) / (- crossProduct c d b - (- crossProduct c d a))"
     "- (- crossProduct c d a) / (- crossProduct c d b - (- crossProduct c d a)) < 1"
    unfolding edges_cross_def t d2 by simp_all
  from opposite_from_param[OF A] opposite_from_param[OF B] show ?thesis by auto
qed

lemma segmentsIntersect_cross:
  assumes "pixel a" "pixel b" "pixel c" "pixel d" "edges_cross a b c d"
  shows "segmentsIntersect a b c d"
proof -
  have s: "(of_int k > (0::real)) = (k > 0)" "(of_int k < (0::real)) = (k < 0)" for k :: int
    by simp_all
  from edges_cross_orient[OF assms(5)]
  have "((cross_ll a b c > 0 \<and> cross_ll a b d < 0) \<or> (cross_ll a b c < 0 \<and> cross_ll a b d > 0))
       \<and> ((cross_ll c d a > 0 \<and> cross_ll c d b < 0) \<or> (cross_ll c d a < 0 \<and> cross_ll c d b > 0))"
    unfolding cross_ll_pixel[OF assms(1,2,3), symmetric] cross_ll_pixel[OF assms(1,2,4), symmetric]
      cross_ll_pixel[OF assms(3,4,1), symmetric] cross_ll_pixel[OF assms(3,4,2), symmetric] s .
  then show ?thesis by (simp add: segmentsIntersect_def Let_def)
qed

lemma isSimple_inner_D:
  assumes "isSimple_inner poly i js" "j \<in> set js"
  shows "poly ! j \<noteq> poly ! ((j + 1) mod length poly) \<and>
         (\<not> (i = j \<or> j = (i + 1) mod length poly \<or> i = (j + 1) mod length poly) \<longrightarrow>
            \<not> segmentsIntersect (poly ! i) (poly ! ((i + 1) mod length poly))
                 (poly ! j) (poly ! ((j + 1) mod length poly)))"
  using assms
  by (induction js) (auto simp: Let_def split: if_splits)

lemma isSimple_outer_D:
  assumes "isSimple_outer poly is" "i \<in> set is"
  shows "poly ! i \<noteq> poly ! ((i + 1) mod length poly) \<and> isSimple_inner poly i [0..<length poly]"
  using assms
  by (induction "is") (auto split: if_splits)

text \<open>
  Claim C4, amended. \<open>isSimplePolygon\<close> accepts every polygon with three or fewer
  vertices. For a polygon with at least four vertices it returns false when some vertex
  is repeated consecutively (the closing edge included); and for a polygon with at least
  four vertices, all of them pixel positions (whole-number coordinates of magnitude at
  most \<open>2^25\<close>), it returns false when two non-adjacent edges cross.
\<close>

theorem isSimplePolygon_rejects:
  "(length poly \<le> 3 \<longrightarrow> isSimplePolygon poly) \<and>
   (4 \<le> length poly \<longrightarrow>
     ((\<exists>i<length poly. poly ! i = poly ! ((i + 1) mod length poly)) \<longrightarrow> \<not> isSimplePolygon poly) \<and>
     (list_all pixel poly \<and>
      (\<exists>i j. non_adjacent (length poly) i j \<and>
         edges_cross (poly ! i) (poly ! ((i + 1) mod length poly))
                     (poly ! j) (poly ! ((j + 1) mod length poly)))
       \<longrightarrow> \<not> isSimplePolygon poly))"
proof (intro impI conjI)
  assume "length poly \<le> 3"
  then show "isSimplePolygon poly"
    by (simp add: isSimplePolygon_def)
next
  assume n: "4 \<le> length poly"
  assume "\<exists>i<length poly. poly ! i = poly ! ((i + 1) mod length poly)"
  then obtain i where i: "i < length poly" "poly ! i = poly ! ((i + 1) mod length poly)" by auto
  show "\<not> isSimplePolygon poly"
  proof
    assume "isSimplePolygon poly"
    with n have "isSimple_outer poly [0..<length poly]"
      by (simp add: isSimplePolygon_def split: if_splits)
    from isSimple_outer_D[OF this, of i] i show False by simp
  qed
next
  let ?n = "length poly"
  assume n: "4 \<le> ?n"
  assume h: "list_all pixel poly \<and>
    (\<exists>i j. non_adjacent ?n i j \<and>
       edges_cross (poly ! i) (poly ! ((i + 1) mod ?n)) (poly ! j) (poly ! ((j + 1) mod ?n)))"
  then obtain i j where ij: "non_adjacent ?n i j"
    and cr: "edges_cross (poly ! i) (poly ! ((i + 1) mod ?n)) (poly ! j) (poly ! ((j + 1) mod ?n))"
    by auto
  from n have npos: "0 < ?n" by linarith
  from ij npos have lt: "i < ?n" "j < ?n" "(i + 1) mod ?n < ?n" "(j + 1) mod ?n < ?n"
    by (simp_all add: non_adjacent_def)
  from h have w: "\<And>k. k < ?n \<Longrightarrow> pixel (poly ! k)" by (simp add: list_all_length)
  have si: "segmentsIntersect (poly ! i) (poly ! ((i + 1) mod ?n)) (poly ! j) (poly ! ((j + 1) mod ?n))"
    by (rule segmentsIntersect_cross[OF w[OF lt(1)] w[OF lt(3)] w[OF lt(2)] w[OF lt(4)] cr])
  show "\<not> isSimplePolygon poly"
  proof
    assume "isSimplePolygon poly"
    with n have "isSimple_outer poly [0..<?n]"
      by (simp add: isSimplePolygon_def split: if_splits)
    from isSimple_outer_D[OF this, of i] lt have "isSimple_inner poly i [0..<?n]" by simp
    from isSimple_inner_D[OF this, of j] lt ij si show False
      by (simp add: non_adjacent_def)
  qed
qed

theorem isSimplePolygon_rejects_witness:
  "isSimplePolygon [(0, 0), (4, 0), (0, 3)] \<and>
   \<not> isSimplePolygon [(0, 0), (0, 0), (1, 0), (1, 1)] \<and> \<not> isSimplePolygon bowtie"
proof -
  let ?t = "[(0, 0), (4, 0), (0, 3)] :: point list"
  let ?p = "[(0, 0), (0, 0), (1, 0), (1, 1)] :: point list"
  have t: "length ?t \<le> 3" by simp
  have a: "4 \<le> length ?p" by simp
  have b: "\<exists>i<length ?p. ?p ! i = ?p ! ((i + 1) mod length ?p)"
    by (rule exI[of _ 0]) simp
  have c: "4 \<le> length bowtie" by (simp add: bowtie_def)
  have d: "list_all pixel bowtie" by (simp add: bowtie_def pixel_def whole_def)
  have e: "non_adjacent (length bowtie) 0 2 \<and>
      edges_cross (bowtie ! 0) (bowtie ! ((0 + 1) mod length bowtie))
                  (bowtie ! 2) (bowtie ! ((2 + 1) mod length bowtie))"
    by code_simp
  then have f: "\<exists>i j. non_adjacent (length bowtie) i j \<and>
      edges_cross (bowtie ! i) (bowtie ! ((i + 1) mod length bowtie))
                  (bowtie ! j) (bowtie ! ((j + 1) mod length bowtie))"
    by blast
  show ?thesis
    using isSimplePolygon_rejects[of ?t] isSimplePolygon_rejects[of ?p]
      isSimplePolygon_rejects[of bowtie] t a b c d f
    by blast
qed

section \<open>Triangle count and area of the ear clipping\<close>

lemma path_sum_snoc:
  "xs \<noteq> [] \<Longrightarrow> path_sum (xs @ [y]) = path_sum xs + (px (last xs) * py y - px y * py (last xs))"
  by (induction xs rule: path_sum.induct) simp_all

lemma path_sum_nth:
  "path_sum xs = (\<Sum>i<length xs - 1. px (xs ! i) * py (xs ! Suc i) - px (xs ! Suc i) * py (xs ! i))"
proof (induction xs rule: path_sum.induct)
  case (1 a b rest)
  show ?case
    using 1 sum.lessThan_Suc_shift[of "\<lambda>i. px ((a # b # rest) ! i) * py ((a # b # rest) ! Suc i)
        - px ((a # b # rest) ! Suc i) * py ((a # b # rest) ! i)" "length rest"]
    by simp
qed simp_all

lemma computeAreaSign_path:
  assumes "xs \<noteq> []"
  shows "computeAreaSign xs = path_sum (xs @ [hd xs])"
proof -
  obtain m where n: "length xs = Suc m" using assms by (cases xs) auto
  have "computeAreaSign xs = (\<Sum>i<m. cyc_term xs i) + cyc_term xs m"
    by (simp add: computeAreaSign_sum n)
  also have "(\<Sum>i<m. cyc_term xs i) = (\<Sum>i<m. px (xs ! i) * py (xs ! Suc i) - px (xs ! Suc i) * py (xs ! i))"
    by (rule sum.cong) (simp_all add: cyc_term_def n)
  also have "\<dots> = path_sum xs"
    by (simp add: path_sum_nth n)
  also have "cyc_term xs m = px (last xs) * py (hd xs) - px (hd xs) * py (last xs)"
    using assms n by (simp add: cyc_term_def last_conv_nth hd_conv_nth)
  finally show ?thesis using assms by (simp add: path_sum_snoc)
qed

lemma computeAreaSign_cut:
  "computeAreaSign (a # b # c # rest) = computeAreaSign (a # c # rest) + crossProduct a b c"
  by (simp add: computeAreaSign_path crossProduct_def algebra_simps)

lemma computeAreaSign_triangle: "computeAreaSign [a, b, c] = crossProduct a b c"
  by (simp add: computeAreaSign_path crossProduct_def algebra_simps)

lemma cut_mid:
  assumes "ys @ xs \<noteq> []"
  shows "computeAreaSign (xs @ a # b # ys)
       = computeAreaSign (xs @ a # ys) + crossProduct a b (hd (ys @ xs))"
proof -
  obtain c rest where c: "ys @ xs = c # rest" using assms by (cases "ys @ xs") auto
  have "computeAreaSign (xs @ a # b # ys) = computeAreaSign (rotate (length xs) (xs @ a # b # ys))"
    by (simp only: computeAreaSign_rotate)
  also have "\<dots> = computeAreaSign (a # b # c # rest)"
    by (simp add: rotate_append c)
  also have "\<dots> = computeAreaSign (a # c # rest) + crossProduct a b c"
    by (rule computeAreaSign_cut)
  also have "computeAreaSign (a # c # rest) = computeAreaSign (rotate (length xs) (xs @ a # ys))"
    by (simp add: rotate_append c)
  also have "\<dots> = computeAreaSign (xs @ a # ys)"
    by (simp only: computeAreaSign_rotate)
  finally show ?thesis by (simp add: c)
qed

lemma cut_last:
  "computeAreaSign (b # c # zs @ [a]) = computeAreaSign (c # zs @ [a]) + crossProduct a b c"
proof -
  have "computeAreaSign (b # c # zs @ [a]) = computeAreaSign (rotate1 (a # b # c # zs))"
    by simp
  also have "\<dots> = computeAreaSign (a # b # c # zs)"
    by (simp only: computeAreaSign_rotate1)
  also have "\<dots> = computeAreaSign (a # c # zs) + crossProduct a b c"
    by (rule computeAreaSign_cut)
  also have "computeAreaSign (a # c # zs) = computeAreaSign (rotate1 (a # c # zs))"
    by (simp only: computeAreaSign_rotate1)
  finally show ?thesis by simp
qed

lemma computeAreaSign_remove_at:
  assumes n: "3 \<le> length r" and i: "i < length r"
  shows "computeAreaSign (remove_at ((i + 1) mod length r) r)
       = computeAreaSign r
         - crossProduct (r ! i) (r ! ((i + 1) mod length r)) (r ! ((i + 2) mod length r))"
proof (cases "i + 1 < length r")
  case True
  let ?xs = "take i r" and ?ys = "drop (i + 2) r"
  have r: "r = ?xs @ r ! i # r ! (i + 1) # ?ys"
  proof -
    have "drop i r = r ! i # drop (Suc i) r" using i by (simp add: Cons_nth_drop_Suc)
    moreover have "drop (Suc i) r = r ! (Suc i) # drop (Suc (Suc i)) r"
      using True by (simp add: Cons_nth_drop_Suc)
    ultimately have "drop i r = r ! i # r ! (i + 1) # drop (i + 2) r" by simp
    then show ?thesis by (metis append_take_drop_id)
  qed
  have m1: "(i + 1) mod length r = i + 1" using True by simp
  have rem: "remove_at (i + 1) r = ?xs @ r ! i # ?ys"
    using i by (simp add: remove_at_def take_Suc_conv_app_nth)
  have ne: "?ys @ ?xs \<noteq> []" using n True by auto
  have hd: "hd (?ys @ ?xs) = r ! ((i + 2) mod length r)"
  proof (cases "i + 2 < length r")
    case True
    then show ?thesis by (simp add: hd_drop_conv_nth)
  next
    case False
    with \<open>i + 1 < length r\<close> have e: "i + 2 = length r" by simp
    then have "?ys = []" by simp
    moreover have "?xs \<noteq> []" using e n by auto
    moreover have "hd ?xs = r ! 0" using e n by (cases r) auto
    ultimately show ?thesis using e by simp
  qed
  have "computeAreaSign r = computeAreaSign (?xs @ r ! i # r ! (i + 1) # ?ys)"
    using r by simp
  also have "\<dots> = computeAreaSign (?xs @ r ! i # ?ys) + crossProduct (r ! i) (r ! (i + 1)) (hd (?ys @ ?xs))"
    by (rule cut_mid[OF ne])
  finally have "computeAreaSign r = computeAreaSign (?xs @ r ! i # ?ys)
      + crossProduct (r ! i) (r ! (i + 1)) (hd (?ys @ ?xs))" .
  then show ?thesis unfolding m1 rem hd by simp
next
  case False
  with i have e: "i + 1 = length r" by simp
  obtain b r1 where r1: "r = b # r1" using n by (cases r) auto
  obtain c r2 where r2: "r1 = c # r2" using n r1 by (cases r1) auto
  have "r2 \<noteq> []" using n r1 r2 by auto
  then obtain zs a where r3: "r2 = zs @ [a]" by (metis rev_exhaust)
  have r: "r = b # c # zs @ [a]" by (simp add: r1 r2 r3)
  have len: "length r = Suc (Suc (Suc (length zs)))" by (simp add: r)
  have ii: "i = Suc (Suc (length zs))" using e len by simp
  have m1: "(i + 1) mod length r = 0" using e by simp
  have m2: "(i + 2) mod length r = 1" using e n by (simp add: mod_Suc)
  have ri: "r ! i = a" by (simp add: r ii nth_append)
  have "remove_at 0 r = c # zs @ [a]" by (simp add: remove_at_def r)
  then show ?thesis
    unfolding m1 m2 ri by (simp add: r cut_last)
qed

lemma to_long_long_pos: "0 < to_long_long x \<Longrightarrow> 0 < x"
proof -
  assume h: "0 < to_long_long x"
  show "0 < x"
  proof (rule ccontr)
    assume "\<not> 0 < x"
    then have x: "x \<le> 0" by simp
    then have c: "\<lceil>x\<rceil> \<le> 0" by (simp add: ceiling_le_zero)
    have f: "\<lfloor>x\<rfloor> \<le> 0" using x by (simp add: floor_le_zero le_less_trans)
    have "to_long_long x \<le> 0"
      unfolding to_long_long_def Let_def LLONG_MIN_def using c f by simp
    with h show False by simp
  qed
qed

lemma mod_less_length: "3 \<le> length (r :: 'a list) \<Longrightarrow> k mod length r < length r"
  by (rule mod_less_divisor) linarith

lemma scan_ears_Some:
  "scan_ears r is = Some i \<Longrightarrow>
     i \<in> set is \<and>
     0 < to_long_long (crossProduct (r ! i) (r ! ((i + 1) mod length r)) (r ! ((i + 2) mod length r)))
     \<and> isValidEar r i"
  by (induction "is") (auto split: if_splits)

lemma triangle_area_ear:
  assumes "0 < to_long_long (crossProduct (r ! i) (r ! ((i + 1) mod length r)) (r ! ((i + 2) mod length r)))"
  shows "triangle_area (ear_at r i)
       = crossProduct (r ! i) (r ! ((i + 1) mod length r)) (r ! ((i + 2) mod length r)) / 2"
  using to_long_long_pos[OF assms]
  by (simp add: triangle_area_def ear_at_def mkTriangle_def computeAreaSign_triangle)

lemma length_remove_at: "k < length xs \<Longrightarrow> length (remove_at k xs) = length xs - 1"
  by (simp add: remove_at_def)

lemma ear_inv_step:
  assumes gt: "3 < length r" and sc: "scan_ears r [0..<length r] = Some i"
    and inv: "ear_inv (remove_at ((i + 1) mod length r) r) (t @ [ear_at r i]) y"
  shows "ear_inv r t y"
proof -
  from scan_ears_Some[OF sc] have i: "i < length r"
    and pos: "0 < to_long_long (crossProduct (r ! i) (r ! ((i + 1) mod length r)) (r ! ((i + 2) mod length r)))"
    by simp_all
  have n3: "3 \<le> length r" using gt by simp
  have k: "(i + 1) mod length r < length r" by (rule mod_less_length[OF n3])
  have len: "length (remove_at ((i + 1) mod length r) r) = length r - 1"
    by (rule length_remove_at[OF k])
  have area: "computeAreaSign (remove_at ((i + 1) mod length r) r) / 2 + triangle_area (ear_at r i)
      = computeAreaSign r / 2"
    unfolding computeAreaSign_remove_at[OF n3 i] triangle_area_ear[OF pos]
    by (simp add: field_simps)
  from inv have a: "length (fst (snd y)) + length (fst y)
       = length (t @ [ear_at r i]) + length (remove_at ((i + 1) mod length r) r)"
    and b: "computeAreaSign (fst y) / 2 + sum_list (map triangle_area (fst (snd y)))
       = computeAreaSign (remove_at ((i + 1) mod length r) r) / 2
         + sum_list (map triangle_area (t @ [ear_at r i]))"
    by (simp_all add: ear_inv_def)
  have "length (fst (snd y)) + length (fst y) = length t + length r"
    using a len gt by simp
  moreover have "computeAreaSign (fst y) / 2 + sum_list (map triangle_area (fst (snd y)))
       = computeAreaSign r / 2 + sum_list (map triangle_area t)"
    using b area by simp
  ultimately show ?thesis by (simp add: ear_inv_def)
qed

lemma ear_loop_inv:
  "ear_loop m r t a = Some y \<Longrightarrow> ear_inv r t y \<and> length (fst y) \<le> max 3 (length r)"
proof (rule ear_loop.raw_induct[where P = "\<lambda>m r t a y. ear_inv r t y \<and> length (fst y) \<le> max 3 (length r)"])
  fix f :: "nat \<Rightarrow> point list \<Rightarrow> Triangle list \<Rightarrow> nat \<Rightarrow> (point list \<times> Triangle list \<times> nat) option"
    and m r t a y
  assume IH: "\<And>m r t a y. f m r t a = Some y \<Longrightarrow> ear_inv r t y \<and> length (fst y) \<le> max 3 (length r)"
    and step: "(if 3 < length r \<and> a < m
      then case scan_ears r [0..<length r] of
           None \<Rightarrow> f m r t a
           | Some i \<Rightarrow> f m (remove_at ((i + 1) mod length r) r) (t @ [ear_at r i]) 0
      else Some (r, t, a)) = Some y"
  show "ear_inv r t y \<and> length (fst y) \<le> max 3 (length r)"
  proof (cases "3 < length r \<and> a < m")
    case False
    with step have "y = (r, t, a)" by auto
    then show ?thesis by (simp add: ear_inv_def)
  next
    case True
    show ?thesis
    proof (cases "scan_ears r [0..<length r]")
      case None
      with True step have "f m r t a = Some y" by simp
      from IH[OF this] show ?thesis .
    next
      case (Some i)
      with True step have "f m (remove_at ((i + 1) mod length r) r) (t @ [ear_at r i]) 0 = Some y"
        by simp
      from IH[OF this] have inv: "ear_inv (remove_at ((i + 1) mod length r) r) (t @ [ear_at r i]) y"
        and le: "length (fst y) \<le> max 3 (length (remove_at ((i + 1) mod length r) r))" by simp_all
      from True have gt: "3 < length r" by simp
      then have "3 \<le> length r" by simp
      then have k: "(i + 1) mod length r < length r" by (rule mod_less_length)
      note gt
      from ear_inv_step[OF this Some inv] le length_remove_at[OF k]
      show ?thesis by simp
    qed
  qed
qed

lemma simple_first_last:
  assumes "isSimplePolygon pv" "4 \<le> length pv"
  shows "hd pv \<noteq> last pv"
proof -
  let ?n = "length pv"
  from assms have "isSimple_outer pv [0..<?n]"
    by (simp add: isSimplePolygon_def split: if_splits)
  from isSimple_outer_D[OF this, of "?n - 1"] assms(2)
  have "pv ! (?n - 1) \<noteq> pv ! ((?n - 1 + 1) mod ?n)" by simp
  moreover have "?n - 1 + 1 = ?n" using assms(2) by linarith
  then have "(?n - 1 + 1) mod ?n = 0" by simp
  moreover have "pv \<noteq> []" using assms(2) by auto
  ultimately show ?thesis by (simp add: hd_conv_nth last_conv_nth)
qed

lemma ear_loop_short:
  "length r \<le> 3 \<Longrightarrow> ear_loop m r t a = Some (r, t, a)"
  by (subst ear_loop.simps) simp

lemma calculateTriangulation_Final:
  assumes "calculateTriangulation w = Some (Final_triangle, w')"
  shows "3 \<le> length (polygonVertices w) \<and> isSimplePolygon (polygonVertices w) \<and>
     (\<exists>r' tris a'.
        ear_loop (length (normalise_winding (drop_closing (polygonVertices w))) * 2)
           (normalise_winding (drop_closing (polygonVertices w))) [] 0 = Some (r', tris, a') \<and>
        length r' = 3 \<and>
        w' = w\<lparr>triangles := tris @ [mkTriangle (r' ! 0) (r' ! 1) (r' ! 2)],
                triangleCount := int (length tris + 1), currentMode := IDLE\<rparr>)"
proof -
  let ?pv = "polygonVertices w"
  let ?r0 = "normalise_winding (drop_closing ?pv)"
  have n3: "\<not> length ?pv < 3"
  proof
    assume "length ?pv < 3"
    then have "calculateTriangulation w = Some (Warn_too_few_vertices, w)"
      by (simp add: calculateTriangulation_def)
    with assms show False by simp
  qed
  have simple: "isSimplePolygon ?pv"
  proof (rule ccontr)
    assume "\<not> isSimplePolygon ?pv"
    with n3 have "calculateTriangulation w = Some (Warn_not_simple, w)"
      by (simp add: calculateTriangulation_def)
    with assms show False by simp
  qed
  have eq: "calculateTriangulation w =
      (case ear_loop (length ?r0 * 2) ?r0 [] 0 of
             None \<Rightarrow> None
           | Some (remaining', tris, attempts) \<Rightarrow>
               if length remaining' = 3 then
                 Some (Final_triangle,
                       w\<lparr>triangles := tris @ [mkTriangle (remaining' ! 0) (remaining' ! 1) (remaining' ! 2)],
                         triangleCount := int (length tris + 1),
                         currentMode := IDLE\<rparr>)
               else if attempts \<ge> length ?r0 * 2 then
                 Some (Warn_cannot_continue, w\<lparr>triangles := []\<rparr>)
               else Some (No_result, w\<lparr>triangles := tris\<rparr>))"
    using n3 simple unfolding calculateTriangulation_def Let_def by (simp only: if_False not_True_eq_False not_not if_True simp_thms)
  show ?thesis
  proof (cases "ear_loop (length ?r0 * 2) ?r0 [] 0")
    case None
    with eq assms show ?thesis by simp
  next
    case (Some y)
    obtain r' tris a' where y: "y = (r', tris, a')" by (cases y) auto
    show ?thesis
    proof (cases "length r' = 3")
      case True
      have "calculateTriangulation w = Some (Final_triangle,
              w\<lparr>triangles := tris @ [mkTriangle (r' ! 0) (r' ! 1) (r' ! 2)],
                triangleCount := int (length tris + 1), currentMode := IDLE\<rparr>)"
        unfolding eq Some y using True by (simp only: option.case prod.case if_True simp_thms)
      with assms have "w' = w\<lparr>triangles := tris @ [mkTriangle (r' ! 0) (r' ! 1) (r' ! 2)],
                triangleCount := int (length tris + 1), currentMode := IDLE\<rparr>"
        by (simp only: option.inject prod.inject simp_thms)
      with n3 simple Some y True show ?thesis by auto
    next
      case False
      have "calculateTriangulation w \<noteq> Some (Final_triangle, w')"
        unfolding eq Some y using False
        by (simp only: option.case prod.case if_False) (simp split: if_splits)
      with assms show ?thesis by simp
    qed
  qed
qed

lemma area_account:
  fixes s t k c m p :: real
  assumes "s = t + k / 2" and "c / 2 + t = m / 2" and "p = m / 2"
  shows "s = p + (k - c) / 2"
proof -
  from assms(2) have "t = m / 2 - c / 2" by simp
  with assms(1,3) show ?thesis by (simp add: diff_divide_distrib)
qed

text \<open>
  Accounting along a run of the ear clipping that ends with its final triangle: from a
  polygon with \<open>n\<close> vertices it has produced exactly \<open>n - 2\<close> triangles and stored that
  number in \<open>triangleCount\<close>, and the sum of the triangles' areas differs from the
  polygon's shoelace area by \<open>(\<bar>c\<bar> - c) / 2\<close>, where \<open>c\<close> is the shoelace sum of the
  last remaining triangle.
\<close>

lemma ear_clipping_count_and_area:
  assumes "calculateTriangulation w = Some (Final_triangle, w')"
  shows "int (length (triangles w')) = int (length (polygonVertices w)) - 2 \<and>
         triangleCount w' = int (length (polygonVertices w)) - 2 \<and>
         sum_list (map triangle_area (triangles w'))
           = polygonArea (calculatePolygonArea w)
             + (\<bar>computeAreaSign [p1 (last (triangles w')), p2 (last (triangles w')), p3 (last (triangles w'))]\<bar>
                - computeAreaSign [p1 (last (triangles w')), p2 (last (triangles w')), p3 (last (triangles w'))]) / 2"
proof -
  let ?pv = "polygonVertices w"
  let ?r0 = "normalise_winding (drop_closing ?pv)"
  from calculateTriangulation_Final[OF assms] obtain r' tris a' where
    n3: "3 \<le> length ?pv" and simple: "isSimplePolygon ?pv"
    and loop: "ear_loop (length ?r0 * 2) ?r0 [] 0 = Some (r', tris, a')"
    and len3: "length r' = 3"
    and w': "w' = w\<lparr>triangles := tris @ [mkTriangle (r' ! 0) (r' ! 1) (r' ! 2)],
                     triangleCount := int (length tris + 1), currentMode := IDLE\<rparr>"
    by blast
  from ear_loop_inv[OF loop] have cnt: "length tris + length r' = length ?r0"
    and area: "computeAreaSign r' / 2 + sum_list (map triangle_area tris) = computeAreaSign ?r0 / 2"
    by (simp_all add: ear_inv_def)
  have nodrop: "drop_closing ?pv = ?pv"
  proof (rule ccontr)
    assume d: "drop_closing ?pv \<noteq> ?pv"
    then have eq: "hd ?pv = last ?pv" and dc: "drop_closing ?pv = butlast ?pv"
      by (auto simp: drop_closing_def split: if_splits)
    show False
    proof (cases "length ?pv = 3")
      case True
      then have "length ?r0 = 2" by (simp add: dc length_normalise_winding)
      then have "ear_loop (length ?r0 * 2) ?r0 [] 0 = Some (?r0, [], 0)"
        by (intro ear_loop_short) simp
      with loop have "r' = ?r0" by simp
      with len3 \<open>length ?r0 = 2\<close> show False by simp
    next
      case False
      with n3 have "4 \<le> length ?pv" by simp
      from simple_first_last[OF simple this] eq show False by simp
    qed
  qed
  have r0len: "length ?r0 = length ?pv" by (simp add: nodrop length_normalise_winding)
  have r0area: "computeAreaSign ?r0 = \<bar>computeAreaSign ?pv\<bar>"
    by (simp add: nodrop normalise_winding_eq computeAreaSign_rev)
  obtain a r1 where ra: "r' = a # r1" using len3 by (cases r') auto
  obtain b r2 where rb: "r1 = b # r2" using len3 ra by (cases r1) auto
  obtain c r3 where rc: "r2 = c # r3" using len3 ra rb by (cases r2) auto
  have "r3 = []" using len3 ra rb rc by simp
  then have r': "r' = [a, b, c]" using ra rb rc by simp
  have fin: "triangle_area (mkTriangle a b c) = \<bar>computeAreaSign [a, b, c]\<bar> / 2"
    by (simp add: triangle_area_def mkTriangle_def)
  have tw: "triangles w' = tris @ [mkTriangle a b c]"
    by (simp add: w' r')
  have s1: "sum_list (map triangle_area (triangles w'))
      = sum_list (map triangle_area tris) + \<bar>computeAreaSign [a, b, c]\<bar> / 2"
    unfolding tw by (simp add: fin)
  have s2: "computeAreaSign [a, b, c] / 2 + sum_list (map triangle_area tris)
      = \<bar>computeAreaSign ?pv\<bar> / 2"
    using area unfolding r0area r' .
  have P: "polygonArea (calculatePolygonArea w) = \<bar>computeAreaSign ?pv\<bar> / 2"
    by (rule polygonArea_calculatePolygonArea)
  have A: "sum_list (map triangle_area (triangles w'))
      = polygonArea (calculatePolygonArea w)
        + (\<bar>computeAreaSign [a, b, c]\<bar> - computeAreaSign [a, b, c]) / 2"
    by (rule area_account[OF s1 s2 P])
  have tc: "triangleCount w' = int (length tris + 1)"
    by (simp add: w')
  have B: "int (length (triangles w')) = int (length ?pv) - 2"
    using cnt len3 r0len unfolding tw by simp
  have C: "triangleCount w' = int (length ?pv) - 2"
    using cnt len3 r0len unfolding tc by simp
  have lastt: "last (triangles w') = mkTriangle a b c"
    unfolding tw by simp
  have sel: "p1 (mkTriangle a b c) = a" "p2 (mkTriangle a b c) = b" "p3 (mkTriangle a b c) = c"
    by (simp_all add: mkTriangle_def)
  show ?thesis unfolding lastt sel using A B C by blast
qed

section \<open>Fallback of the boolean operation without intersections\<close>

lemma no_strict_intersections_iff:
  "no_strict_intersections polyA polyB \<longleftrightarrow>
     (\<forall>i<length polyA. \<forall>j<length polyB.
         getLineSegmentIntersection (polyA ! i) (polyA ! ((i + 1) mod length polyA))
                                    (polyB ! j) (polyB ! ((j + 1) mod length polyB)) = None)"
  by (auto simp: no_strict_intersections_def list_all_iff)










































text \<open>Edges that do not cross have no reported intersection.\<close>

lemma reported_intersection_crosses:
  assumes "getLineSegmentIntersection a b c d \<noteq> None"
  shows "edges_cross a b c d"
proof -
  have e: "0 < EPSILON" by (simp add: EPSILON_def)
  from assms have det: "\<not> \<bar>seg_det a b c d\<bar> < EPSILON"
    and tu: "seg_t a b c d > EPSILON \<and> seg_t a b c d < 1 - EPSILON \<and>
             seg_u a b c d > EPSILON \<and> seg_u a b c d < 1 - EPSILON"
    by (auto simp: getLineSegmentIntersection_def Let_def split: if_splits)
  from det e have "seg_det a b c d \<noteq> 0" by auto
  moreover from tu e have "0 < seg_t a b c d" "seg_t a b c d < 1" "0 < seg_u a b c d" "seg_u a b c d < 1"
    by auto
  ultimately show ?thesis by (simp add: edges_cross_def)
qed

lemma no_crossing_no_strict_intersections:
  assumes "\<And>i j. i < length polyA \<Longrightarrow> j < length polyB \<Longrightarrow>
     \<not> edges_cross (polyA ! i) (polyA ! ((i + 1) mod length polyA))
                   (polyB ! j) (polyB ! ((j + 1) mod length polyB))"
  shows "no_strict_intersections polyA polyB"
  unfolding no_strict_intersections_iff
  using assms reported_intersection_crosses by blast





section \<open>Operands of the boolean operation\<close>

text \<open>
  Claim C10. Whenever the Weiler-Atherton routine returns, the operand containers
  \<open>polygonA\<close> and \<open>polygonB\<close> hold the vertex sequences they held before the call;
  the only member the call changes is \<open>weilerResultPolygons\<close>. The reversal and the
  node lists work on the copies \<open>polyA\<close>, \<open>polyB\<close>, \<open>listA\<close>, \<open>listB\<close>.
\<close>

theorem weiler_atherton_keeps_operands:
  assumes "calculateBooleanOp_WeilerAtherton opType w = Some w'"
  shows "polygonA w' = polygonA w \<and> polygonB w' = polygonB w \<and>
         w' = w\<lparr>weilerResultPolygons := weilerResultPolygons w'\<rparr>"
proof (cases "length (polygonA w) < 3 \<or> length (polygonB w) < 3")
  case True
  with assms have "w' = w\<lparr>weilerResultPolygons := []\<rparr>"
    by (simp add: calculateBooleanOp_WeilerAtherton_def)
  then show ?thesis by simp
next
  case False
  let ?A = "ccw_copy (polygonA w)" and ?B = "ccw_copy (polygonB w)"
  show ?thesis
  proof (cases "find_intersections (list_of_polygon ?A) (list_of_polygon ?B) (begin_it (list_of_polygon ?A))")
    case None
    with False assms show ?thesis
      by (simp add: calculateBooleanOp_WeilerAtherton_def Let_def)
  next
    case (Some y)
    obtain lA lB where y: "y = (lA, lB)" by (cases y) auto
    from False assms Some y have "\<exists>res. w' = w\<lparr>weilerResultPolygons := res\<rparr>"
      by (auto simp: calculateBooleanOp_WeilerAtherton_def Let_def)
    then obtain res where "w' = w\<lparr>weilerResultPolygons := res\<rparr>" ..
    then show ?thesis by simp
  qed
qed

lemma wa_overlap_eval:
  "calculateBooleanOp_WeilerAtherton Intersection (initial_widget\<lparr>polygonA := sqA, polygonB := sqB\<rparr>)
     = Some (initial_widget\<lparr>polygonA := sqA, polygonB := sqB,
               weilerResultPolygons := [[(2, 4), (2, 6), (6, 6), (6, 2), (4, 2), (4, 0), (0, 0), (0, 4)]]\<rparr>)"
  by code_simp

theorem weiler_atherton_keeps_operands_witness:
  "calculateBooleanOp_WeilerAtherton Intersection (initial_widget\<lparr>polygonA := sqA, polygonB := sqB\<rparr>)
     = Some (initial_widget\<lparr>polygonA := sqA, polygonB := sqB,
               weilerResultPolygons := [[(2, 4), (2, 6), (6, 6), (6, 2), (4, 2), (4, 0), (0, 0), (0, 4)]]\<rparr>) \<and>
   polygonA (initial_widget\<lparr>polygonA := sqA, polygonB := sqB,
               weilerResultPolygons := [[(2, 4), (2, 6), (6, 6), (6, 2), (4, 2), (4, 0), (0, 0), (0, 4)]]\<rparr>) = sqA \<and>
   polygonB (initial_widget\<lparr>polygonA := sqA, polygonB := sqB,
               weilerResultPolygons := [[(2, 4), (2, 6), (6, 6), (6, 2), (4, 2), (4, 0), (0, 0), (0, 4)]]\<rparr>) = sqB"
  using weiler_atherton_keeps_operands[OF wa_overlap_eval] wa_overlap_eval by simp

section \<open>Dispatch of performCalculation\<close>

text \<open>
  Claim C9. In every widget state, \<open>performCalculation\<close> does not invoke
  \<open>calculateIntersectionAndUnion\<close>; in the mode \<open>DRAW_POLYGON_B\<close> it invokes no
  calculation at all. Among the slots and event handlers of the widget, only
  \<open>showIntersection_QPainterPath\<close> and \<open>showUnion_QPainterPath\<close> invoke
  \<open>calculateIntersectionAndUnion\<close>, and only \<open>showIntersection_Weiler\<close> and
  \<open>showUnion_Weiler\<close> invoke the Weiler-Atherton routine.
\<close>

theorem performCalculation_never_IntersectionAndUnion:
  "Calc_IntersectionAndUnion \<notin> set (performCalculation_calls w) \<and>
   (currentMode w = DRAW_POLYGON_B \<longrightarrow> performCalculation_calls w = []) \<and>
   (Calc_IntersectionAndUnion \<in> set (calls_of h w) \<longrightarrow>
      h = ShowIntersection_QPainterPath \<or> h = ShowUnion_QPainterPath) \<and>
   (Calc_BooleanOp_WeilerAtherton opType \<in> set (calls_of h w) \<longrightarrow>
      h = ShowIntersection_Weiler \<or> h = ShowUnion_Weiler)"
proof -
  have a: "Calc_IntersectionAndUnion \<notin> set (performCalculation_calls w)"
    by (simp add: performCalculation_calls_def)
  have b: "\<And>op. Calc_BooleanOp_WeilerAtherton op \<notin> set (performCalculation_calls w)"
    by (simp add: performCalculation_calls_def)
  have c: "Calc_IntersectionAndUnion \<notin> set (mousePress_Right_calls w)"
    using a by (simp add: mousePress_Right_calls_def)
  have d: "\<And>op. Calc_BooleanOp_WeilerAtherton op \<notin> set (mousePress_Right_calls w)"
    using b by (simp add: mousePress_Right_calls_def)
  have e: "currentMode w = DRAW_POLYGON_B \<longrightarrow> performCalculation_calls w = []"
    by (simp add: performCalculation_calls_def)
  have f: "Calc_IntersectionAndUnion \<in> set (calls_of h w) \<longrightarrow>
      h = ShowIntersection_QPainterPath \<or> h = ShowUnion_QPainterPath"
    using a c by (cases h) simp_all
  have g: "Calc_BooleanOp_WeilerAtherton opType \<in> set (calls_of h w) \<longrightarrow>
      h = ShowIntersection_Weiler \<or> h = ShowUnion_Weiler"
    using b c d by (cases h) simp_all
  from a e f g show ?thesis by blast
qed

theorem performCalculation_never_IntersectionAndUnion_witness:
  "performCalculation_calls (initial_widget\<lparr>currentMode := DRAW_POLYGON_B, polygonB := sqA\<rparr>) = [] \<and>
   Calc_IntersectionAndUnion \<in> set (calls_of ShowUnion_QPainterPath initial_widget) \<and>
   Calc_BooleanOp_WeilerAtherton Union \<in> set (calls_of ShowUnion_Weiler initial_widget) \<and>
   Calc_IntersectionAndUnion \<notin> set (calls_of PerformCalculation
      (initial_widget\<lparr>currentMode := DRAW_POLYGON, polygonVertices := sqA, polygonB := sqB\<rparr>))"
  using performCalculation_never_IntersectionAndUnion
    [of "initial_widget\<lparr>currentMode := DRAW_POLYGON_B, polygonB := sqA\<rparr>" ShowUnion_QPainterPath Union]
    performCalculation_never_IntersectionAndUnion
    [of initial_widget ShowUnion_Weiler Union]
    performCalculation_never_IntersectionAndUnion
    [of "initial_widget\<lparr>currentMode := DRAW_POLYGON, polygonVertices := sqA, polygonB := sqB\<rparr>"
        PerformCalculation Union]
  by simp

end
